theory Spec2Isabelle
  imports Main
begin

section \<open>Page routes: listing the pages of a book and reordering them\<close>

text \<open>
  The development embeds the two routes of the page router that deal with page order:
  \<^verbatim>\<open>router.get('/book/:bookId')\<close> and \<^verbatim>\<open>router.post('/reorder')\<close>.
  The page collection is explicit state; every write the handler awaits is one
  state transition; an exception, of the storage layer or of the language, is a value.
\<close>

subsection \<open>Exceptions\<close>

text \<open>
  The exceptions that reach the \<^verbatim>\<open>catch\<close> of the reorder handler: the duplicate-key error of
  the storage layer, and the \<^verbatim>\<open>TypeError\<close> that JavaScript throws when a value has no
  conversion to a string or when a property of null is read.
\<close>

datatype error = DuplicateKey | TypeError

subsection \<open>Values of a request body\<close>

text \<open>
  The identifier fields of a request body (\<^verbatim>\<open>bookId\<close>, \<^verbatim>\<open>item.pageId\<close>) are arbitrary JSON
  values: the handler tests their truthiness, reads their \<^verbatim>\<open>_id\<close> property and applies
  \<^verbatim>\<open>String(...)\<close>. The values modelled are the absent field, null, booleans, strings and
  objects; numbers and arrays are not represented.
\<close>

datatype jsval =
    JUndefined
  | JNull
  | JBool bool
  | JStr string
  | JObj "(string \<times> jsval) list"

fun truthy :: "jsval \<Rightarrow> bool" where
  "truthy JUndefined = False"
| "truthy JNull = False"
| "truthy (JBool b) = b"
| "truthy (JStr s) = (s \<noteq> [])"
| "truthy (JObj kvs) = True"

text \<open>
  \<^verbatim>\<open>String(v)\<close>. The conversion of an object calls its \<^verbatim>\<open>toString\<close> method, which is
  \<^verbatim>\<open>Object.prototype.toString\<close> unless the object has a member of that name. A member
  \<^verbatim>\<open>toString\<close> of an object of a request body is no function (no JSON value is one), and
  \<^verbatim>\<open>valueOf\<close> returns no primitive, so the conversion of such an object throws a
  \<^verbatim>\<open>TypeError\<close>.
\<close>

fun js_String :: "jsval \<Rightarrow> error + string" where
  "js_String JUndefined = Inr ''undefined''"
| "js_String JNull = Inr ''null''"
| "js_String (JBool b) = Inr (if b then ''true'' else ''false'')"
| "js_String (JStr s) = Inr s"
| "js_String (JObj kvs) =
     (case map_of kvs ''toString'' of
        None \<Rightarrow> Inr ''[object Object]''
      | Some member \<Rightarrow> Inl TypeError)"

text \<open>
  Property read \<^verbatim>\<open>v.k\<close> on a value the handler has found truthy (the read is guarded by
  \<^verbatim>\<open>v && v._id\<close>): an own property of an object, undefined otherwise.
\<close>

fun js_prop :: "jsval \<Rightarrow> string \<Rightarrow> jsval" where
  "js_prop (JObj kvs) k = (case map_of kvs k of Some v \<Rightarrow> v | None \<Rightarrow> JUndefined)"
| "js_prop v k = JUndefined"

text \<open>\<^verbatim>\<open>v && v._id ? String(v._id) : String(v)\<close>, used for \<^verbatim>\<open>bookId\<close> and for every \<^verbatim>\<open>pageId\<close>.\<close>

definition id_string :: "jsval \<Rightarrow> error + string" where
  "id_string v =
     (if truthy v \<and> truthy (js_prop v ''_id'') then js_String (js_prop v ''_id'') else js_String v)"

definition hex_digit :: "char \<Rightarrow> bool" where
  "hex_digit c = (c \<in> set ''0123456789abcdefABCDEF'')"

text \<open>The regular expression \<^verbatim>\<open>/^[0-9a-fA-F]{24}$/\<close>.\<close>

definition hex24 :: "string \<Rightarrow> bool" where
  "hex24 s = (length s = 24 \<and> list_all hex_digit s)"

text \<open>\<^verbatim>\<open>!str || str.length !== 24 || !/^[0-9a-fA-F]{24}$/.test(str)\<close>.\<close>

definition invalid_format :: "string \<Rightarrow> bool" where
  "invalid_format str = (str = [] \<or> length str \<noteq> 24 \<or> \<not> hex24 str)"

text \<open>
  An entry of \<^verbatim>\<open>pageOrder\<close>, as the route documents its body:
  \<^verbatim>\<open>{ pageId: string, newPageNumber: number }\<close>. The page number is an integer; the
  identifier is a raw value in the request and a string after validation. A page number
  that is not an integer is not represented.
\<close>

record 'a item =
  pageId :: 'a
  newPageNumber :: int

text \<open>
  An element of the array \<^verbatim>\<open>pageOrder\<close>: null, on which the read \<^verbatim>\<open>item.pageId\<close> throws
  a \<^verbatim>\<open>TypeError\<close>, or an entry. An element that is a boolean or a string has no
  \<^verbatim>\<open>pageId\<close>: it is the entry whose \<^verbatim>\<open>pageId\<close> is absent.
\<close>

datatype element = Null_element | Entry "jsval item"

text \<open>
  The \<^verbatim>\<open>pageOrder\<close> field: an array of elements, or anything else (absent, null, a
  string, an object), for which \<^verbatim>\<open>!pageOrder || !Array.isArray(pageOrder)\<close> holds.
\<close>

datatype pageOrder_val = NotArray | Array "element list"

fun isArray :: "pageOrder_val \<Rightarrow> bool" where
  "isArray NotArray = False"
| "isArray (Array items) = True"

fun elements :: "pageOrder_val \<Rightarrow> element list" where
  "elements NotArray = []"
| "elements (Array items) = items"

subsection \<open>The page collection\<close>

text \<open>
  A page document: its identifier (\<^verbatim>\<open>_id\<close>), the identifier of the owning book, its page
  number, and every other field as one opaque payload.
\<close>

record ('i, 'c) page =
  page_id :: 'i
  bookId :: 'i
  pageNumber :: int
  content :: 'c

text \<open>
  The Page model (\<^verbatim>\<open>require('../models/Page')\<close>) and the Mongoose library are not part
  of the sources. What the routes use of them is a parameter of the model:
  \<^item> \<open>isValid\<close> is \<^verbatim>\<open>mongoose.Types.ObjectId.isValid\<close> on a string;
  \<^item> \<open>cast\<close> is the cast of an identifier string in a query filter to the stored
    identifier type of the schema (for an ObjectId, two hex strings that differ in case
    only are cast to the same identifier);
  \<^item> \<open>populate\<close> is what \<^verbatim>\<open>.populate('webView.gameId', ...)\<close> does to the payload of a
    page that is returned.
\<close>

record ('i, 'c) mongoose =
  isValid :: "string \<Rightarrow> bool"
  cast :: "string \<Rightarrow> 'i"
  populate :: "'c \<Rightarrow> 'c"

text \<open>
  The state: the documents of the collection in storage order, and a history of the
  writes issued so far (filter identifier, filter book, value), which the program does
  not read; it records the order in which the handler issues its writes.
\<close>

record ('i, 'c) store =
  pages :: "('i, 'c) page list"
  writes :: "('i \<times> 'i \<times> int) list"

text \<open>The first document that satisfies the filter is the one replaced.\<close>

fun update_first :: "('a \<Rightarrow> bool) \<Rightarrow> ('a \<Rightarrow> 'a) \<Rightarrow> 'a list \<Rightarrow> 'a list" where
  "update_first P f [] = []"
| "update_first P f (x # xs) = (if P x then f x # xs else x # update_first P f xs)"

text \<open>
  Modelled from the spec: the unique index of the Page schema on
  \<^verbatim>\<open>(bookId, pageNumber)\<close> (the schema is not part of the sources; the handler's comment and
  the specification both name the index). A write that would give a document the key of
  another document is rejected with a duplicate-key error and changes nothing; a write
  that leaves the page number as it is does not touch the index.

  \<^verbatim>\<open>Page.findOneAndUpdate({ _id: pid, bookId: bid }, { $set: { pageNumber: n } })\<close>:
  the result is the document found (before the update) or null.
\<close>

definition findOneAndUpdate ::
  "('i, 'c) mongoose \<Rightarrow> ('i, 'c) store \<Rightarrow> string \<Rightarrow> string \<Rightarrow> int
     \<Rightarrow> (error + ('i, 'c) page option) \<times> ('i, 'c) store" where
  "findOneAndUpdate M s pid bid n =
     (let matches = (\<lambda>p. page_id p = cast M pid \<and> bookId p = cast M bid);
          s' = s\<lparr>writes := writes s @ [(cast M pid, cast M bid, n)]\<rparr>
      in case find matches (pages s) of
           None \<Rightarrow> (Inr None, s')
         | Some p \<Rightarrow>
             if pageNumber p \<noteq> n \<and>
                (\<exists>q \<in> set (remove1 p (pages s)). bookId q = bookId p \<and> pageNumber q = n)
             then (Inl DuplicateKey, s')
             else (Inr (Some p),
                   s'\<lparr>pages := update_first matches (\<lambda>p. p\<lparr>pageNumber := n\<rparr>) (pages s)\<rparr>))"

definition populate_page :: "('i, 'c) mongoose \<Rightarrow> ('i, 'c) page \<Rightarrow> ('i, 'c) page" where
  "populate_page M p = p\<lparr>content := populate M (content p)\<rparr>"

text \<open>
  \<^verbatim>\<open>Page.find({ bookId: bid }).populate(...).sort({ pageNumber: 1 })\<close>; documents with
  equal page numbers keep their storage order.
\<close>

definition find_sorted ::
  "('i, 'c) mongoose \<Rightarrow> ('i, 'c) store \<Rightarrow> string \<Rightarrow> ('i, 'c) page list" where
  "find_sorted M s bid =
     map (populate_page M) (sort_key pageNumber (filter (\<lambda>p. bookId p = cast M bid) (pages s)))"

subsection \<open>The routes\<close>

datatype ('i, 'c) response =
    Pages "('i, 'c) page list"
  | Bad_request string
  | Server_error error

fun status :: "('i, 'c) response \<Rightarrow> nat" where
  "status (Pages ps) = 200"
| "status (Bad_request msg) = 400"
| "status (Server_error e) = 500"

text \<open>\<^verbatim>\<open>router.get('/book/:bookId')\<close>; the path parameter is a string.\<close>

definition get_book_pages ::
  "('i, 'c) mongoose \<Rightarrow> ('i, 'c) store \<Rightarrow> string \<Rightarrow> ('i, 'c) response" where
  "get_book_pages M s bid =
     (if \<not> isValid M bid then Pages [] else Pages (find_sorted M s bid))"

text \<open>
  The loop that validates the entries and collects \<^verbatim>\<open>validPageOrders\<close>. The read
  \<^verbatim>\<open>item.pageId\<close> of a null element and the conversion \<^verbatim>\<open>String(...)\<close> of an identifier may
  throw; the exception leaves the loop and the \<^verbatim>\<open>try\<close> block.
\<close>

fun validPageOrders :: "element list \<Rightarrow> error + string item list" where
  "validPageOrders [] = Inr []"
| "validPageOrders (Null_element # rest) = Inl TypeError"
| "validPageOrders (Entry item # rest) =
     (case id_string (pageId item) of
        Inl err \<Rightarrow> Inl err
      | Inr pageIdStr \<Rightarrow>
          (case validPageOrders rest of
             Inl err \<Rightarrow> Inl err
           | Inr valid \<Rightarrow>
               Inr (if invalid_format pageIdStr then valid
                    else \<lparr>pageId = pageIdStr, newPageNumber = newPageNumber item\<rparr> # valid)))"

text \<open>
  Phase 1, \<^verbatim>\<open>for (let i = 0; i < validPageOrders.length; i++)\<close>: the entries from index
  \<open>i\<close> on. An exception leaves the loop; the writes already made stay.
\<close>

fun phase1 ::
  "('i, 'c) mongoose \<Rightarrow> string \<Rightarrow> nat \<Rightarrow> string item list \<Rightarrow> ('i, 'c) store
     \<Rightarrow> error option \<times> ('i, 'c) store" where
  "phase1 M bid i [] s = (None, s)"
| "phase1 M bid i (e # es) s =
     (case findOneAndUpdate M s (pageId e) bid (- (int i + 1)) of
        (Inl err, s') \<Rightarrow> (Some err, s')
      | (Inr result, s') \<Rightarrow> phase1 M bid (Suc i) es s')"

text \<open>Phase 2, with the counter \<^verbatim>\<open>updatedCount\<close>.\<close>

fun phase2 ::
  "('i, 'c) mongoose \<Rightarrow> string \<Rightarrow> string item list \<Rightarrow> nat \<Rightarrow> ('i, 'c) store
     \<Rightarrow> (error + nat) \<times> ('i, 'c) store" where
  "phase2 M bid [] updatedCount s = (Inr updatedCount, s)"
| "phase2 M bid (e # es) updatedCount s =
     (case findOneAndUpdate M s (pageId e) bid (newPageNumber e) of
        (Inl err, s') \<Rightarrow> (Inl err, s')
      | (Inr result, s') \<Rightarrow>
          phase2 M bid es (if result \<noteq> None then Suc updatedCount else updatedCount) s')"

text \<open>
  \<^verbatim>\<open>router.post('/reorder')\<close>: the response and the state the handler leaves. Every
  exception is caught and answered with status 500; the writes made before it stay. The
  counter of Phase 2 is logged and then dropped.
\<close>

definition reorder ::
  "('i, 'c) mongoose \<Rightarrow> ('i, 'c) store \<Rightarrow> jsval \<Rightarrow> pageOrder_val
     \<Rightarrow> ('i, 'c) response \<times> ('i, 'c) store" where
  "reorder M s bookId_raw pageOrder =
     (if \<not> truthy bookId_raw \<or> \<not> isArray pageOrder
      then (Bad_request ''bookId and pageOrder array are required'', s)
      else
        case id_string bookId_raw of
          Inl err \<Rightarrow> (Server_error err, s)
        | Inr bookIdStr \<Rightarrow>
            if invalid_format bookIdStr then (Bad_request ''Invalid bookId format'', s)
            else
              (case validPageOrders (elements pageOrder) of
                 Inl err \<Rightarrow> (Server_error err, s)
               | Inr valid \<Rightarrow>
                   (case phase1 M bookIdStr 0 valid s of
                      (Some err, s1) \<Rightarrow> (Server_error err, s1)
                    | (None, s1) \<Rightarrow>
                        (case phase2 M bookIdStr valid 0 s1 of
                           (Inl err, s2) \<Rightarrow> (Server_error err, s2)
                         | (Inr updatedCount, s2) \<Rightarrow>
                             (Pages (find_sorted M s2 bookIdStr), s2)))))"

subsection \<open>Notions used in the statements\<close>

text \<open>
  The identifier string of a raw value whose conversion returns one; where the conversion
  throws there is none, and the empty string, which is no identifier, stands for it.
\<close>

definition id_str :: "jsval \<Rightarrow> string" where
  "id_str v = (case id_string v of Inr str \<Rightarrow> str | Inl err \<Rightarrow> [])"



text \<open>
  What a reorder may change in a page: nothing but its page number, and nothing at all
  when the page belongs to another book than \<open>b\<close>.
\<close>

definition frame_rel :: "'i \<Rightarrow> ('i, 'c) page \<Rightarrow> ('i, 'c) page \<Rightarrow> bool" where
  "frame_rel b p p' = (p' = p\<lparr>pageNumber := pageNumber p'\<rparr> \<and> (bookId p \<noteq> b \<longrightarrow> p' = p))"

text \<open>No two pages of book \<open>b\<close> hold the same page number.\<close>

definition unique_positions :: "'i \<Rightarrow> ('i, 'c) page list \<Rightarrow> bool" where
  "unique_positions b ps = distinct (map pageNumber (filter (\<lambda>p. bookId p = b) ps))"

text \<open>The effect of one accepted write (identifier, book, value) on one document.\<close>

definition upd :: "'i \<times> 'i \<times> int \<Rightarrow> ('i, 'c) page \<Rightarrow> ('i, 'c) page" where
  "upd w p = (case w of (c, b, n) \<Rightarrow> if page_id p = c \<and> bookId p = b then p\<lparr>pageNumber := n\<rparr> else p)"

definition apply_writes :: "('i \<times> 'i \<times> int) list \<Rightarrow> ('i, 'c) page \<Rightarrow> ('i, 'c) page" where
  "apply_writes ws p = fold upd ws p"

text \<open>
  The writes of Phase 1 for the entries \<open>es\<close>, the first of which has index \<open>i\<close>: the
  entry of index \<open>j\<close> is given the placeholder \<open>-(j+1)\<close>. The writes of Phase 2 give every
  entry its requested number.
\<close>

definition placeholder_writes ::
  "('i, 'c) mongoose \<Rightarrow> string \<Rightarrow> nat \<Rightarrow> string item list \<Rightarrow> ('i \<times> 'i \<times> int) list" where
  "placeholder_writes M bid i es =
     map (\<lambda>(j, e). (cast M (pageId e), cast M bid, - (int j + 1))) (enumerate i es)"

definition final_writes ::
  "('i, 'c) mongoose \<Rightarrow> string \<Rightarrow> string item list \<Rightarrow> ('i \<times> 'i \<times> int) list" where
  "final_writes M bid es = map (\<lambda>e. (cast M (pageId e), cast M bid, newPageNumber e)) es"

text \<open>
  The requested mapping, in the words of the specification: a page of the book that an
  entry lists holds the number that entry requests; every other page is as it was.
\<close>

definition requested ::
  "('i, 'c) mongoose \<Rightarrow> string \<Rightarrow> string item list \<Rightarrow> ('i, 'c) page \<Rightarrow> ('i, 'c) page" where
  "requested M bid es p =
     (case find (\<lambda>e. cast M (pageId e) = page_id p) es of
        Some e \<Rightarrow> if bookId p = cast M bid then p\<lparr>pageNumber := newPageNumber e\<rparr> else p
      | None \<Rightarrow> p)"

text \<open>The validated form of a well-formed entry.\<close>

definition valid_item :: "jsval item \<Rightarrow> string item" where
  "valid_item item = \<lparr>pageId = id_str (pageId item), newPageNumber = newPageNumber item\<rparr>"

subsection \<open>A book with three pages\<close>

text \<open>
  The example of the specification: book \<open>P\<close> with the pages \<open>A\<close>, \<open>B\<close>, \<open>C\<close> at the
  positions 1, 2, 3. Identifiers are stored as the strings that name them.
\<close>

definition ex_M :: "(string, string) mongoose" where
  "ex_M = \<lparr>isValid = hex24, cast = id, populate = id\<rparr>"

definition ex_book :: string where "ex_book = ''64b0000000000000000000f1''"
definition ex_A :: string where "ex_A = ''aaaaaaaaaaaaaaaaaaaaaaaa''"
definition ex_B :: string where "ex_B = ''bbbbbbbbbbbbbbbbbbbbbbbb''"
definition ex_C :: string where "ex_C = ''cccccccccccccccccccccccc''"
definition ex_X :: string where "ex_X = ''0123456789abcdefABCDEF00''"

definition ex_page :: "string \<Rightarrow> int \<Rightarrow> (string, string) page" where
  "ex_page i n = \<lparr>page_id = i, bookId = ex_book, pageNumber = n, content = ''text''\<rparr>"

definition ex_store :: "(string, string) store" where
  "ex_store = \<lparr>pages = [ex_page ex_A 1, ex_page ex_B 2, ex_page ex_C 3], writes = []\<rparr>"

definition ex_item :: "string \<Rightarrow> int \<Rightarrow> element" where
  "ex_item i n = Entry \<lparr>pageId = JStr i, newPageNumber = n\<rparr>"

section \<open>Properties of one write\<close>

lemma find_split:
  "find P ps = Some p \<Longrightarrow> \<exists>xs ys. ps = xs @ p # ys \<and> (\<forall>x\<in>set xs. \<not> P x) \<and> P p"
proof (induction ps)
  case Nil
  then show ?case by simp
next
  case (Cons a ps)
  show ?case
  proof (cases "P a")
    case True
    with Cons.prems have "a = p" by simp
    with True show ?thesis by (intro exI[of _ "[]"] exI[of _ ps]) simp
  next
    case False
    with Cons obtain xs ys where "ps = xs @ p # ys" "\<forall>x\<in>set xs. \<not> P x" "P p" by auto
    with False show ?thesis by (intro exI[of _ "a # xs"] exI[of _ ys]) simp
  qed
qed

lemma update_first_split:
  "(\<forall>x\<in>set xs. \<not> P x) \<Longrightarrow> P p \<Longrightarrow> update_first P f (xs @ p # ys) = xs @ f p # ys"
  by (induction xs) auto

lemma remove1_split:
  "p \<notin> set xs \<Longrightarrow> remove1 p (xs @ p # ys) = xs @ ys"
  by (induction xs) auto

text \<open>What a call does, case by case.\<close>

lemma findOneAndUpdate_cases:
  obtains
    (absent) "find (\<lambda>p. page_id p = cast M pid \<and> bookId p = cast M bid) (pages s) = None"
      "findOneAndUpdate M s pid bid n = (Inr None, s\<lparr>writes := writes s @ [(cast M pid, cast M bid, n)]\<rparr>)"
  | (rejected) xs p ys where "pages s = xs @ p # ys" "\<forall>x\<in>set xs. \<not> (page_id x = cast M pid \<and> bookId x = cast M bid)"
      "page_id p = cast M pid" "bookId p = cast M bid" "pageNumber p \<noteq> n"
      "\<exists>q\<in>set (xs @ ys). bookId q = cast M bid \<and> pageNumber q = n"
      "findOneAndUpdate M s pid bid n = (Inl DuplicateKey, s\<lparr>writes := writes s @ [(cast M pid, cast M bid, n)]\<rparr>)"
  | (written) xs p ys where "pages s = xs @ p # ys" "\<forall>x\<in>set xs. \<not> (page_id x = cast M pid \<and> bookId x = cast M bid)"
      "page_id p = cast M pid" "bookId p = cast M bid"
      "pageNumber p = n \<or> (\<forall>q\<in>set (xs @ ys). \<not> (bookId q = cast M bid \<and> pageNumber q = n))"
      "findOneAndUpdate M s pid bid n =
         (Inr (Some p), s\<lparr>writes := writes s @ [(cast M pid, cast M bid, n)], pages := xs @ p\<lparr>pageNumber := n\<rparr> # ys\<rparr>)"
proof (cases "find (\<lambda>p. page_id p = cast M pid \<and> bookId p = cast M bid) (pages s)")
  case None
  then show ?thesis by (intro absent) (simp_all add: findOneAndUpdate_def)
next
  case (Some p)
  let ?P = "\<lambda>p. page_id p = cast M pid \<and> bookId p = cast M bid"
  from find_split[OF Some] obtain xs ys where
    sp: "pages s = xs @ p # ys" "\<forall>x\<in>set xs. \<not> ?P x" "?P p" by blast
  have nin: "p \<notin> set xs" using sp by blast
  have r: "remove1 p (pages s) = xs @ ys" using sp(1) nin by (simp add: remove1_split)
  have u: "update_first ?P f (pages s) = xs @ f p # ys" for f
    using sp by (simp add: update_first_split)
  have eq: "findOneAndUpdate M s pid bid n =
      (if pageNumber p \<noteq> n \<and> (\<exists>q\<in>set (xs @ ys). bookId q = cast M bid \<and> pageNumber q = n)
       then (Inl DuplicateKey, s\<lparr>writes := writes s @ [(cast M pid, cast M bid, n)]\<rparr>)
       else (Inr (Some p), s\<lparr>writes := writes s @ [(cast M pid, cast M bid, n)],
                pages := xs @ p\<lparr>pageNumber := n\<rparr> # ys\<rparr>))"
    using sp(3) by (simp add: findOneAndUpdate_def Let_def Some r u)
  show ?thesis
  proof (cases "pageNumber p \<noteq> n \<and> (\<exists>q\<in>set (xs @ ys). bookId q = cast M bid \<and> pageNumber q = n)")
    case True
    show ?thesis
    proof (rule rejected[of xs p ys])
      show "findOneAndUpdate M s pid bid n =
        (Inl DuplicateKey, s\<lparr>writes := writes s @ [(cast M pid, cast M bid, n)]\<rparr>)"
        using True eq by simp
    qed (use sp True in auto)
  next
    case False
    show ?thesis
    proof (rule written[of xs p ys])
      show "findOneAndUpdate M s pid bid n =
         (Inr (Some p), s\<lparr>writes := writes s @ [(cast M pid, cast M bid, n)],
            pages := xs @ p\<lparr>pageNumber := n\<rparr> # ys\<rparr>)"
        using False eq by simp
    qed (use sp False in auto)
  qed
qed


lemma findOneAndUpdate_writes:
  "writes (snd (findOneAndUpdate M s pid bid n)) = writes s @ [(cast M pid, cast M bid, n)]"
  by (cases rule: findOneAndUpdate_cases[of M pid bid s n]) simp_all


lemma frame_rel_refl: "frame_rel b p p"
  by (simp add: frame_rel_def)

lemma frame_rel_trans: "frame_rel b p q \<Longrightarrow> frame_rel b q r \<Longrightarrow> frame_rel b p r"
  by (cases p; cases q; cases r) (auto simp add: frame_rel_def)

lemma frame_rel_set: "bookId p = b \<Longrightarrow> frame_rel b p (p\<lparr>pageNumber := n\<rparr>)"
  by (simp add: frame_rel_def)

lemma list_all2_frame_refl: "list_all2 (frame_rel b) ps ps"
  by (simp add: list_all2_refl frame_rel_refl)

lemma list_all2_frame_trans:
  "list_all2 (frame_rel b) ps qs \<Longrightarrow> list_all2 (frame_rel b) qs rs \<Longrightarrow> list_all2 (frame_rel b) ps rs"
  using list_all2_trans[of "frame_rel b" "frame_rel b" "frame_rel b" ps qs rs] frame_rel_trans[of b]
  by blast

lemma findOneAndUpdate_frame:
  "list_all2 (frame_rel (cast M bid)) (pages s) (pages (snd (findOneAndUpdate M s pid bid n)))"
proof (cases rule: findOneAndUpdate_cases[of M pid bid s n])
  case (written xs p ys)
  then show ?thesis
    by (simp add: list_all2_appendI list_all2_frame_refl frame_rel_set)
qed (simp_all add: list_all2_frame_refl)

lemma findOneAndUpdate_unique:
  assumes "unique_positions b (pages s)"
  shows "unique_positions b (pages (snd (findOneAndUpdate M s pid bid n)))"
proof (cases rule: findOneAndUpdate_cases[of M pid bid s n])
  case (written xs p ys)
  show ?thesis
  proof (cases "pageNumber p = n")
    case True
    then have "p\<lparr>pageNumber := n\<rparr> = p" by simp
    with written assms show ?thesis by simp
  next
    case False
    with written(5) have "\<forall>q\<in>set (xs @ ys). \<not> (bookId q = cast M bid \<and> pageNumber q = n)" by simp
    with written(1,4,6) assms show ?thesis
      by (auto simp add: unique_positions_def)
  qed
qed (use assms in simp_all)

lemma findOneAndUpdate_pages:
  assumes "distinct (map page_id (pages s))" "fst (findOneAndUpdate M s pid bid n) = Inr r"
  shows "pages (snd (findOneAndUpdate M s pid bid n)) = map (upd (cast M pid, cast M bid, n)) (pages s)"
proof (cases rule: findOneAndUpdate_cases[of M pid bid s n])
  case absent
  then have "\<forall>p\<in>set (pages s). \<not> (page_id p = cast M pid \<and> bookId p = cast M bid)"
    by (simp add: find_None_iff)
  then have "map (upd (cast M pid, cast M bid, n)) (pages s) = pages s"
    by (intro map_idI) (auto simp add: upd_def)
  with absent show ?thesis by simp
next
  case (rejected xs p ys)
  with assms(2) show ?thesis by simp
next
  case (written xs p ys)
  have "map (upd (cast M pid, cast M bid, n)) xs = xs"
    using written(2) by (intro map_idI) (auto simp add: upd_def)
  moreover have "page_id p \<notin> page_id ` set ys"
    using assms(1) written(1) by simp
  then have "\<forall>y\<in>set ys. page_id y \<noteq> cast M pid"
    using written(3) by (metis imageI)
  then have "map (upd (cast M pid, cast M bid, n)) ys = ys"
    by (intro map_idI) (simp add: upd_def)
  ultimately show ?thesis using written by (simp add: upd_def)
qed

lemma findOneAndUpdate_ok:
  assumes "distinct (map page_id (pages s))"
    and "\<forall>q\<in>set (pages s). bookId q = cast M bid \<and> page_id q \<noteq> cast M pid \<longrightarrow> pageNumber q \<noteq> n"
  shows "\<exists>r. fst (findOneAndUpdate M s pid bid n) = Inr r"
proof (cases rule: findOneAndUpdate_cases[of M pid bid s n])
  case (rejected xs p ys)
  then obtain q where q: "q \<in> set (xs @ ys)" "bookId q = cast M bid" "pageNumber q = n" by blast
  have "page_id p \<notin> page_id ` set ys"
    using assms(1) rejected(1) by simp
  then have "\<forall>y\<in>set ys. page_id y \<noteq> cast M pid"
    using rejected(3) by (metis imageI)
  moreover have "\<forall>x\<in>set xs. bookId x = cast M bid \<longrightarrow> page_id x \<noteq> cast M pid"
    using rejected(2) by blast
  ultimately have "page_id q \<noteq> cast M pid"
    using q(1,2) by auto
  with q assms(2) rejected(1) show ?thesis by auto
qed simp_all

lemma upd_ids [simp]: "page_id (upd w p) = page_id p" "bookId (upd w p) = bookId p"
  by (auto simp add: upd_def split: prod.splits)

section \<open>Properties of the two loops\<close>

declare phase1.simps(2) [simp del] phase2.simps(2) [simp del]

lemma phase1_Inl:
  "fst (findOneAndUpdate M s (pageId e) bid (- (int i + 1))) = Inl err \<Longrightarrow>
   phase1 M bid i (e # es) s =
     (Some err, snd (findOneAndUpdate M s (pageId e) bid (- (int i + 1))))"
  by (cases "findOneAndUpdate M s (pageId e) bid (- (int i + 1))") (simp add: phase1.simps(2))

lemma phase1_Inr:
  "fst (findOneAndUpdate M s (pageId e) bid (- (int i + 1))) = Inr r \<Longrightarrow>
   phase1 M bid i (e # es) s =
     phase1 M bid (Suc i) es (snd (findOneAndUpdate M s (pageId e) bid (- (int i + 1))))"
  by (cases "findOneAndUpdate M s (pageId e) bid (- (int i + 1))") (simp add: phase1.simps(2))

lemma phase2_Inl:
  "fst (findOneAndUpdate M s (pageId e) bid (newPageNumber e)) = Inl err \<Longrightarrow>
   phase2 M bid (e # es) c s =
     (Inl err, snd (findOneAndUpdate M s (pageId e) bid (newPageNumber e)))"
  by (cases "findOneAndUpdate M s (pageId e) bid (newPageNumber e)") (simp add: phase2.simps(2))

lemma phase2_Inr:
  "fst (findOneAndUpdate M s (pageId e) bid (newPageNumber e)) = Inr r \<Longrightarrow>
   phase2 M bid (e # es) c s =
     phase2 M bid es (if r \<noteq> None then Suc c else c)
       (snd (findOneAndUpdate M s (pageId e) bid (newPageNumber e)))"
  by (cases "findOneAndUpdate M s (pageId e) bid (newPageNumber e)") (simp add: phase2.simps(2))

lemma placeholder_writes_Nil [simp]: "placeholder_writes M bid i [] = []"
  by (simp add: placeholder_writes_def)

lemma placeholder_writes_Cons [simp]:
  "placeholder_writes M bid i (e # es) =
     (cast M (pageId e), cast M bid, - (int i + 1)) # placeholder_writes M bid (Suc i) es"
  by (simp add: placeholder_writes_def)

lemma length_placeholder_writes [simp]: "length (placeholder_writes M bid i es) = length es"
  by (simp add: placeholder_writes_def)

lemma final_writes_simps [simp]:
  "final_writes M bid [] = []"
  "final_writes M bid (e # es) =
     (cast M (pageId e), cast M bid, newPageNumber e) # final_writes M bid es"
  "length (final_writes M bid es) = length es"
  by (simp_all add: final_writes_def)

lemma phase1_writes:
  "\<exists>k\<le>length es.
      writes (snd (phase1 M bid i es s)) = writes s @ take k (placeholder_writes M bid i es) \<and>
      (fst (phase1 M bid i es s) = None \<longrightarrow> k = length es)"
proof (induction es arbitrary: i s)
  case Nil
  show ?case by simp
next
  case (Cons e es)
  let ?r = "findOneAndUpdate M s (pageId e) bid (- (int i + 1))"
  show ?case
  proof (cases "fst ?r")
    case (Inl err)
    show ?thesis
      unfolding phase1_Inl[OF Inl] by (rule exI[of _ "Suc 0"]) (simp add: findOneAndUpdate_writes)
  next
    case (Inr r)
    have "\<exists>k\<le>length es. writes (snd (phase1 M bid (Suc i) es (snd ?r))) =
         writes (snd ?r) @ take k (placeholder_writes M bid (Suc i) es) \<and>
      (fst (phase1 M bid (Suc i) es (snd ?r)) = None \<longrightarrow> k = length es)"
      by (rule Cons.IH)
    then obtain k where k: "k \<le> length es"
      "writes (snd (phase1 M bid (Suc i) es (snd ?r))) =
         writes (snd ?r) @ take k (placeholder_writes M bid (Suc i) es)"
      "fst (phase1 M bid (Suc i) es (snd ?r)) = None \<longrightarrow> k = length es"
      by (elim exE conjE)
    show ?thesis
      unfolding phase1_Inr[OF Inr]
      using k by (intro exI[of _ "Suc k"]) (simp add: findOneAndUpdate_writes)
  qed
qed

lemma phase2_writes:
  "\<exists>k\<le>length es.
      writes (snd (phase2 M bid es c s)) = writes s @ take k (final_writes M bid es) \<and>
      ((\<exists>n. fst (phase2 M bid es c s) = Inr n) \<longrightarrow> k = length es)"
proof (induction es arbitrary: c s)
  case Nil
  show ?case by simp
next
  case (Cons e es)
  let ?r = "findOneAndUpdate M s (pageId e) bid (newPageNumber e)"
  show ?case
  proof (cases "fst ?r")
    case (Inl err)
    show ?thesis
      unfolding phase2_Inl[OF Inl] by (rule exI[of _ "Suc 0"]) (simp add: findOneAndUpdate_writes)
  next
    case (Inr r)
    let ?c = "if r \<noteq> None then Suc c else c"
    have "\<exists>k\<le>length es. writes (snd (phase2 M bid es ?c (snd ?r))) =
         writes (snd ?r) @ take k (final_writes M bid es) \<and>
      ((\<exists>n. fst (phase2 M bid es ?c (snd ?r)) = Inr n) \<longrightarrow> k = length es)"
      by (rule Cons.IH)
    then obtain k where k: "k \<le> length es"
      "writes (snd (phase2 M bid es ?c (snd ?r))) =
         writes (snd ?r) @ take k (final_writes M bid es)"
      "(\<exists>n. fst (phase2 M bid es ?c (snd ?r)) = Inr n) \<longrightarrow> k = length es"
      by (elim exE conjE)
    show ?thesis
      unfolding phase2_Inr[OF Inr]
      using k by (intro exI[of _ "Suc k"]) (simp add: findOneAndUpdate_writes)
  qed
qed

lemma phase1_frame:
  "list_all2 (frame_rel (cast M bid)) (pages s) (pages (snd (phase1 M bid i es s)))"
proof (induction es arbitrary: i s)
  case Nil
  show ?case by (simp add: list_all2_frame_refl)
next
  case (Cons e es)
  let ?r = "findOneAndUpdate M s (pageId e) bid (- (int i + 1))"
  have step: "list_all2 (frame_rel (cast M bid)) (pages s) (pages (snd ?r))"
    by (rule findOneAndUpdate_frame)
  show ?case
  proof (cases "fst ?r")
    case (Inl err)
    show ?thesis unfolding phase1_Inl[OF Inl] using step by simp
  next
    case (Inr r)
    have "list_all2 (frame_rel (cast M bid)) (pages (snd ?r))
        (pages (snd (phase1 M bid (Suc i) es (snd ?r))))" by (rule Cons.IH)
    with step show ?thesis
      unfolding phase1_Inr[OF Inr] by (rule list_all2_frame_trans)
  qed
qed

lemma phase2_frame:
  "list_all2 (frame_rel (cast M bid)) (pages s) (pages (snd (phase2 M bid es c s)))"
proof (induction es arbitrary: c s)
  case Nil
  show ?case by (simp add: list_all2_frame_refl)
next
  case (Cons e es)
  let ?r = "findOneAndUpdate M s (pageId e) bid (newPageNumber e)"
  have step: "list_all2 (frame_rel (cast M bid)) (pages s) (pages (snd ?r))"
    by (rule findOneAndUpdate_frame)
  show ?case
  proof (cases "fst ?r")
    case (Inl err)
    show ?thesis unfolding phase2_Inl[OF Inl] using step by simp
  next
    case (Inr r)
    have "list_all2 (frame_rel (cast M bid)) (pages (snd ?r))
        (pages (snd (phase2 M bid es (if r \<noteq> None then Suc c else c) (snd ?r))))"
      by (rule Cons.IH)
    with step show ?thesis
      unfolding phase2_Inr[OF Inr] by (rule list_all2_frame_trans)
  qed
qed

lemma phase1_unique:
  "unique_positions b (pages s) \<Longrightarrow> unique_positions b (pages (snd (phase1 M bid i es s)))"
proof (induction es arbitrary: i s)
  case Nil
  then show ?case by simp
next
  case (Cons e es)
  let ?r = "findOneAndUpdate M s (pageId e) bid (- (int i + 1))"
  have step: "unique_positions b (pages (snd ?r))"
    using Cons.prems by (rule findOneAndUpdate_unique)
  show ?case
  proof (cases "fst ?r")
    case (Inl err)
    show ?thesis unfolding phase1_Inl[OF Inl] using step by simp
  next
    case (Inr r)
    show ?thesis unfolding phase1_Inr[OF Inr] using step by (rule Cons.IH)
  qed
qed

lemma phase2_unique:
  "unique_positions b (pages s) \<Longrightarrow> unique_positions b (pages (snd (phase2 M bid es c s)))"
proof (induction es arbitrary: c s)
  case Nil
  then show ?case by simp
next
  case (Cons e es)
  let ?r = "findOneAndUpdate M s (pageId e) bid (newPageNumber e)"
  have step: "unique_positions b (pages (snd ?r))"
    using Cons.prems by (rule findOneAndUpdate_unique)
  show ?case
  proof (cases "fst ?r")
    case (Inl err)
    show ?thesis unfolding phase2_Inl[OF Inl] using step by simp
  next
    case (Inr r)
    show ?thesis unfolding phase2_Inr[OF Inr] using step by (rule Cons.IH)
  qed
qed

lemma findOneAndUpdate_resolves:
  "(\<exists>q\<in>set (pages (snd (findOneAndUpdate M s pid bid n))). page_id q = c \<and> bookId q = d) =
   (\<exists>q\<in>set (pages s). page_id q = c \<and> bookId q = d)"
proof (cases rule: findOneAndUpdate_cases[of M pid bid s n])
  case (written xs p ys)
  show ?thesis unfolding written(6) written(1) by auto
qed simp_all


lemma apply_writes_simps [simp]:
  "apply_writes [] p = p"
  "apply_writes (w # ws) p = apply_writes ws (upd w p)"
  by (simp_all add: apply_writes_def)

lemma apply_writes_ids [simp]:
  "page_id (apply_writes ws p) = page_id p" "bookId (apply_writes ws p) = bookId p"
  by (induction ws arbitrary: p) simp_all

lemma apply_writes_unmatched:
  "\<forall>w\<in>set ws. \<not> (page_id p = fst w \<and> bookId p = fst (snd w)) \<Longrightarrow> apply_writes ws p = p"
  by (induction ws arbitrary: p) (auto simp add: upd_def split: prod.splits)

lemma apply_writes_matched:
  "\<exists>w\<in>set ws. page_id p = fst w \<and> bookId p = fst (snd w) \<Longrightarrow>
     pageNumber (apply_writes ws p) \<in> (\<lambda>w. snd (snd w)) ` set ws"
proof (induction ws arbitrary: p)
  case Nil
  then show ?case by simp
next
  case (Cons w ws)
  show ?case
  proof (cases "\<exists>v\<in>set ws. page_id p = fst v \<and> bookId p = fst (snd v)")
    case True
    then have "pageNumber (apply_writes ws (upd w p)) \<in> (\<lambda>w. snd (snd w)) ` set ws"
      by (intro Cons.IH) simp
    then show ?thesis by simp
  next
    case False
    then have "apply_writes ws (upd w p) = upd w p"
      by (intro apply_writes_unmatched) simp
    moreover have "page_id p = fst w \<and> bookId p = fst (snd w)"
      using Cons.prems False by auto
    ultimately show ?thesis by (cases w) (simp add: upd_def)
  qed
qed

lemma apply_writes_distinct:
  "distinct (map fst ws) \<Longrightarrow> (c, b, n) \<in> set ws \<Longrightarrow> page_id p = c \<Longrightarrow> bookId p = b \<Longrightarrow>
     apply_writes ws p = p\<lparr>pageNumber := n\<rparr>"
proof (induction ws arbitrary: p)
  case Nil
  then show ?case by simp
next
  case (Cons w ws)
  show ?case
  proof (cases "w = (c, b, n)")
    case True
    have "c \<notin> fst ` set ws" using Cons.prems(1) True by simp
    then have "\<forall>v\<in>set ws. fst v \<noteq> c" by (metis imageI)
    then have "apply_writes ws (upd w p) = upd w p"
      using Cons.prems(3) by (intro apply_writes_unmatched) auto
    then show ?thesis using True Cons.prems(3,4) by (simp add: upd_def)
  next
    case False
    then have in_ws: "(c, b, n) \<in> set ws" using Cons.prems(2) by simp
    then have "c \<in> fst ` set ws" by (metis fst_conv imageI)
    then have "fst w \<noteq> c" using Cons.prems(1) by auto
    then have "upd w p = p" using Cons.prems(3) by (cases w) (simp add: upd_def)
    moreover have "apply_writes ws p = p\<lparr>pageNumber := n\<rparr>"
      using Cons.prems(1,3,4) in_ws by (intro Cons.IH) simp_all
    ultimately show ?thesis by simp
  qed
qed

lemma phase1_pages:
  "distinct (map page_id (pages s)) \<Longrightarrow> fst (phase1 M bid i es s) = None \<Longrightarrow>
     pages (snd (phase1 M bid i es s)) = map (apply_writes (placeholder_writes M bid i es)) (pages s)"
proof (induction es arbitrary: i s)
  case Nil
  show ?case by simp
next
  case (Cons e es)
  let ?r = "findOneAndUpdate M s (pageId e) bid (- (int i + 1))"
  show ?case
  proof (cases "fst ?r")
    case (Inl err)
    with Cons.prems(2) show ?thesis by (simp add: phase1_Inl[OF Inl])
  next
    case (Inr r)
    have step: "pages (snd ?r) = map (upd (cast M (pageId e), cast M bid, - (int i + 1))) (pages s)"
      using Cons.prems(1) Inr by (rule findOneAndUpdate_pages)
    then have d: "distinct (map page_id (pages (snd ?r)))"
      using Cons.prems(1) by (simp add: comp_def)
    have ok: "fst (phase1 M bid (Suc i) es (snd ?r)) = None"
      using Cons.prems(2) by (simp add: phase1_Inr[OF Inr])
    have "pages (snd (phase1 M bid (Suc i) es (snd ?r))) =
        map (apply_writes (placeholder_writes M bid (Suc i) es)) (pages (snd ?r))"
      using d ok by (rule Cons.IH)
    then show ?thesis
      unfolding phase1_Inr[OF Inr] step by (simp add: comp_def)
  qed
qed

lemma phase2_pages:
  "distinct (map page_id (pages s)) \<Longrightarrow> fst (phase2 M bid es c s) = Inr n \<Longrightarrow>
     pages (snd (phase2 M bid es c s)) = map (apply_writes (final_writes M bid es)) (pages s)"
proof (induction es arbitrary: c s)
  case Nil
  show ?case by simp
next
  case (Cons e es)
  let ?r = "findOneAndUpdate M s (pageId e) bid (newPageNumber e)"
  show ?case
  proof (cases "fst ?r")
    case (Inl err)
    with Cons.prems(2) show ?thesis by (simp add: phase2_Inl[OF Inl])
  next
    case (Inr r)
    let ?c = "if r \<noteq> None then Suc c else c"
    have step: "pages (snd ?r) = map (upd (cast M (pageId e), cast M bid, newPageNumber e)) (pages s)"
      using Cons.prems(1) Inr by (rule findOneAndUpdate_pages)
    then have d: "distinct (map page_id (pages (snd ?r)))"
      using Cons.prems(1) by (simp add: comp_def)
    have ok: "fst (phase2 M bid es ?c (snd ?r)) = Inr n"
      using Cons.prems(2) by (simp add: phase2_Inr[OF Inr])
    have "pages (snd (phase2 M bid es ?c (snd ?r))) =
        map (apply_writes (final_writes M bid es)) (pages (snd ?r))"
      using d ok by (rule Cons.IH)
    then show ?thesis
      unfolding phase2_Inr[OF Inr] step by (simp add: comp_def)
  qed
qed

text \<open>Phase 1 cannot be rejected when no page of the book lies below the placeholders used so far.\<close>

lemma phase1_ok:
  "distinct (map page_id (pages s)) \<Longrightarrow>
   \<forall>p\<in>set (pages s). bookId p = cast M bid \<longrightarrow> - int i \<le> pageNumber p \<Longrightarrow>
   fst (phase1 M bid i es s) = None"
proof (induction es arbitrary: i s)
  case Nil
  show ?case by simp
next
  case (Cons e es)
  let ?r = "findOneAndUpdate M s (pageId e) bid (- (int i + 1))"
  have "\<forall>q\<in>set (pages s). bookId q = cast M bid \<and> page_id q \<noteq> cast M (pageId e)
           \<longrightarrow> pageNumber q \<noteq> - (int i + 1)"
    using Cons.prems(2) by fastforce
  with Cons.prems(1) have "\<exists>r. fst ?r = Inr r"
    by (rule findOneAndUpdate_ok)
  then obtain r where Inr: "fst ?r = Inr r" by (elim exE)
  have step: "pages (snd ?r) = map (upd (cast M (pageId e), cast M bid, - (int i + 1))) (pages s)"
    using Cons.prems(1) Inr by (rule findOneAndUpdate_pages)
  then have d: "distinct (map page_id (pages (snd ?r)))"
    using Cons.prems(1) by (simp add: comp_def)
  have b: "\<forall>p\<in>set (pages (snd ?r)). bookId p = cast M bid \<longrightarrow> - int (Suc i) \<le> pageNumber p"
    unfolding step using Cons.prems(2) by (fastforce simp add: upd_def)
  show ?case
    unfolding phase1_Inr[OF Inr] using d b by (rule Cons.IH)
qed

lemma phase2_ok:
  "distinct (map page_id (pages s)) \<Longrightarrow>
   distinct (map (\<lambda>e. cast M (pageId e)) es) \<Longrightarrow>
   distinct (map newPageNumber es) \<Longrightarrow>
   \<forall>e\<in>set es. 0 \<le> newPageNumber e \<Longrightarrow>
   \<forall>p\<in>set (pages s). bookId p = cast M bid \<longrightarrow>
      (if page_id p \<in> (\<lambda>e. cast M (pageId e)) ` set es then pageNumber p < 0
       else pageNumber p \<notin> newPageNumber ` set es) \<Longrightarrow>
   \<exists>n. fst (phase2 M bid es c s) = Inr n"
proof (induction es arbitrary: c s)
  case Nil
  show ?case by simp
next
  case (Cons e es)
  let ?r = "findOneAndUpdate M s (pageId e) bid (newPageNumber e)"
  let ?ids = "(\<lambda>e. cast M (pageId e)) ` set es"
  have e_new: "cast M (pageId e) \<notin> ?ids" and t_new: "newPageNumber e \<notin> newPageNumber ` set es"
    and e_nn: "0 \<le> newPageNumber e"
    using Cons.prems(2,3,4) by simp_all
  have free: "\<forall>q\<in>set (pages s). bookId q = cast M bid \<and> page_id q \<noteq> cast M (pageId e)
           \<longrightarrow> pageNumber q \<noteq> newPageNumber e"
  proof (intro ballI impI)
    fix q assume q: "q \<in> set (pages s)" "bookId q = cast M bid \<and> page_id q \<noteq> cast M (pageId e)"
    show "pageNumber q \<noteq> newPageNumber e"
    proof (cases "page_id q \<in> ?ids")
      case True
      then have "pageNumber q < 0" using bspec[OF Cons.prems(5) q(1)] q(2) by simp
      with e_nn show ?thesis by simp
    next
      case False
      then have "pageNumber q \<notin> newPageNumber ` set (e # es)" using bspec[OF Cons.prems(5) q(1)] q(2) by simp
      then show ?thesis by simp
    qed
  qed
  with Cons.prems(1) have "\<exists>r. fst ?r = Inr r" by (rule findOneAndUpdate_ok)
  then obtain r where Inr: "fst ?r = Inr r" by (elim exE)
  have step: "pages (snd ?r) = map (upd (cast M (pageId e), cast M bid, newPageNumber e)) (pages s)"
    using Cons.prems(1) Inr by (rule findOneAndUpdate_pages)
  then have d: "distinct (map page_id (pages (snd ?r)))"
    using Cons.prems(1) by (simp add: comp_def)
  have inv: "\<forall>p\<in>set (pages (snd ?r)). bookId p = cast M bid \<longrightarrow>
      (if page_id p \<in> ?ids then pageNumber p < 0 else pageNumber p \<notin> newPageNumber ` set es)"
    unfolding step
  proof (intro ballI impI)
    fix p' assume "p' \<in> set (map (upd (cast M (pageId e), cast M bid, newPageNumber e)) (pages s))"
      and b: "bookId p' = cast M bid"
    then obtain p where p: "p \<in> set (pages s)"
      "p' = upd (cast M (pageId e), cast M bid, newPageNumber e) p" by auto
    have pb: "bookId p = cast M bid" using b p(2) by simp
    show "if page_id p' \<in> ?ids then pageNumber p' < 0 else pageNumber p' \<notin> newPageNumber ` set es"
    proof (cases "page_id p = cast M (pageId e)")
      case True
      then have "pageNumber p' = newPageNumber e" "page_id p' \<notin> ?ids"
        using p(2) pb e_new by (simp_all add: upd_def)
      with t_new show ?thesis by simp
    next
      case False
      then have same: "p' = p" using p(2) by (simp add: upd_def)
      show ?thesis
      proof (cases "page_id p \<in> ?ids")
        case True
        then have "pageNumber p < 0" using bspec[OF Cons.prems(5) p(1)] pb by simp
        with True same show ?thesis by simp
      next
        case notin: False
        then have "pageNumber p \<notin> newPageNumber ` set (e # es)"
          using bspec[OF Cons.prems(5) p(1)] pb False by simp
        with notin same show ?thesis by simp
      qed
    qed
  qed
  show ?case
    unfolding phase2_Inr[OF Inr]
    using d Cons.prems(2,3,4) inv by (intro Cons.IH) simp_all
qed

lemma upd_frame: "upd w p = p\<lparr>pageNumber := pageNumber (upd w p)\<rparr>"
  by (cases w) (simp add: upd_def)

lemma apply_writes_frame: "apply_writes ws p = p\<lparr>pageNumber := pageNumber (apply_writes ws p)\<rparr>"
proof (induction ws arbitrary: p)
  case Nil
  show ?case by simp
next
  case (Cons w ws)
  have "apply_writes ws (upd w p) = (upd w p)\<lparr>pageNumber := pageNumber (apply_writes ws (upd w p))\<rparr>"
    by (rule Cons.IH)
  also have "\<dots> = p\<lparr>pageNumber := pageNumber (apply_writes ws (upd w p))\<rparr>"
    by (subst upd_frame) simp
  finally show ?case by simp
qed

lemma placeholder_writes_mem:
  "w \<in> set (placeholder_writes M bid i es) \<Longrightarrow>
     fst w \<in> (\<lambda>e. cast M (pageId e)) ` set es \<and> fst (snd w) = cast M bid \<and> snd (snd w) < 0"
  by (induction es arbitrary: i) auto

lemma placeholder_writes_ids:
  "e \<in> set es \<Longrightarrow>
     \<exists>w\<in>set (placeholder_writes M bid i es). fst w = cast M (pageId e) \<and> fst (snd w) = cast M bid"
  by (induction es arbitrary: i) auto

lemma final_writes_mem:
  "w \<in> set (final_writes M bid es) \<Longrightarrow>
     fst w \<in> (\<lambda>e. cast M (pageId e)) ` set es \<and> fst (snd w) = cast M bid"
  by (auto simp add: final_writes_def)

lemma map_fst_final_writes: "map fst (final_writes M bid es) = map (\<lambda>e. cast M (pageId e)) es"
  by (simp add: final_writes_def comp_def)

lemma find_item_Some:
  "find (\<lambda>e. cast M (pageId e) = c) es = Some e \<Longrightarrow> e \<in> set es \<and> cast M (pageId e) = c"
  by (induction es) (auto split: if_splits)

lemma find_item_None:
  "find (\<lambda>e. cast M (pageId e) = c) es = None \<Longrightarrow> c \<notin> (\<lambda>e. cast M (pageId e)) ` set es"
  by (induction es) (auto split: if_splits)

text \<open>
  Both lists of writes, applied to a page one after the other, leave the requested mapping,
  when the entries name distinct pages.
\<close>

lemma apply_writes_requested:
  assumes de: "distinct (map (\<lambda>e. cast M (pageId e)) es)"
  shows "apply_writes (final_writes M bid es) (apply_writes (placeholder_writes M bid i es) p) =
           requested M bid es p"
proof (cases "find (\<lambda>e. cast M (pageId e) = page_id p) es")
  case None
  then have nin: "page_id p \<notin> ((\<lambda>e. cast M (pageId e)) ` set es)" by (rule find_item_None)
  have "\<forall>w\<in>set (placeholder_writes M bid i es). \<not> (page_id p = fst w \<and> bookId p = fst (snd w))"
    using nin placeholder_writes_mem[of _ M bid i es] by auto
  then have a: "apply_writes (placeholder_writes M bid i es) p = p" by (rule apply_writes_unmatched)
  have "\<forall>w\<in>set (final_writes M bid es). \<not> (page_id p = fst w \<and> bookId p = fst (snd w))"
    using nin final_writes_mem[of _ M bid es] by auto
  then have "apply_writes (final_writes M bid es) p = p" by (rule apply_writes_unmatched)
  with a None show ?thesis by (simp add: requested_def)
next
  case (Some e)
  then have e: "e \<in> set es" "cast M (pageId e) = page_id p" using find_item_Some by fast+
  show ?thesis
  proof (cases "bookId p = cast M bid")
    case True
    let ?p1 = "apply_writes (placeholder_writes M bid i es) p"
    have "(cast M (pageId e), cast M bid, newPageNumber e) \<in> set (final_writes M bid es)"
      using e(1) by (auto simp add: final_writes_def)
    moreover have "distinct (map fst (final_writes M bid es))" using de by (simp add: map_fst_final_writes)
    ultimately have "apply_writes (final_writes M bid es) ?p1 = ?p1\<lparr>pageNumber := newPageNumber e\<rparr>"
      using e(2) True by (intro apply_writes_distinct) simp_all
    also have "\<dots> = p\<lparr>pageNumber := newPageNumber e\<rparr>"
      by (subst apply_writes_frame) simp
    finally show ?thesis using Some True by (simp add: requested_def)
  next
    case False
    have "\<forall>w\<in>set (placeholder_writes M bid i es). \<not> (page_id p = fst w \<and> bookId p = fst (snd w))"
      using False placeholder_writes_mem[of _ M bid i es] by auto
    then have a: "apply_writes (placeholder_writes M bid i es) p = p" by (rule apply_writes_unmatched)
    have "\<forall>w\<in>set (final_writes M bid es). \<not> (page_id p = fst w \<and> bookId p = fst (snd w))"
      using False final_writes_mem[of _ M bid es] by auto
    then have "apply_writes (final_writes M bid es) p = p" by (rule apply_writes_unmatched)
    with a Some False show ?thesis by (simp add: requested_def)
  qed
qed

lemma phases_requested:
  assumes "distinct (map page_id (pages s))"
    and "distinct (map (\<lambda>e. cast M (pageId e)) es)"
    and "fst (phase1 M bid 0 es s) = None"
    and "fst (phase2 M bid es c (snd (phase1 M bid 0 es s))) = Inr n"
  shows "pages (snd (phase2 M bid es c (snd (phase1 M bid 0 es s)))) =
           map (requested M bid es) (pages s)"
proof -
  let ?s1 = "snd (phase1 M bid 0 es s)"
  have p1: "pages ?s1 = map (apply_writes (placeholder_writes M bid 0 es)) (pages s)"
    using assms(1,3) by (rule phase1_pages)
  have d1: "distinct (map page_id (pages ?s1))"
    unfolding p1 using assms(1) by (simp add: comp_def)
  have p2: "pages (snd (phase2 M bid es c ?s1)) =
      map (apply_writes (final_writes M bid es)) (pages ?s1)"
    using d1 assms(4) by (rule phase2_pages)
  show ?thesis
    unfolding p2 p1 by (simp add: apply_writes_requested[OF assms(2)])
qed

text \<open>The two phases together, on a request that cannot collide.\<close>

lemma two_phases:
  assumes d: "distinct (map page_id (pages s))"
    and pos: "\<forall>p\<in>set (pages s). bookId p = cast M bid \<longrightarrow> 0 \<le> pageNumber p"
    and de: "distinct (map (\<lambda>e. cast M (pageId e)) es)"
    and dt: "distinct (map newPageNumber es)"
    and nn: "\<forall>e\<in>set es. 0 \<le> newPageNumber e"
    and free: "\<forall>p\<in>set (pages s). bookId p = cast M bid \<longrightarrow>
                 page_id p \<notin> (\<lambda>e. cast M (pageId e)) ` set es \<longrightarrow>
                 pageNumber p \<notin> newPageNumber ` set es"
  shows "fst (phase1 M bid 0 es s) = None"
    and "\<exists>n. fst (phase2 M bid es c (snd (phase1 M bid 0 es s))) = Inr n"
    and "pages (snd (phase2 M bid es c (snd (phase1 M bid 0 es s)))) =
           map (requested M bid es) (pages s)"
proof -
  let ?ids = "(\<lambda>e. cast M (pageId e)) ` set es"
  let ?P1 = "placeholder_writes M bid 0 es"
  let ?P2 = "final_writes M bid es"
  let ?s1 = "snd (phase1 M bid 0 es s)"
  show ok1: "fst (phase1 M bid 0 es s) = None"
    using d pos by (intro phase1_ok) simp_all
  have p1: "pages ?s1 = map (apply_writes ?P1) (pages s)"
    using d ok1 by (rule phase1_pages)
  have d1: "distinct (map page_id (pages ?s1))"
    unfolding p1 using d by (simp add: comp_def)
  have inv: "\<forall>p\<in>set (pages ?s1). bookId p = cast M bid \<longrightarrow>
      (if page_id p \<in> ?ids then pageNumber p < 0 else pageNumber p \<notin> newPageNumber ` set es)"
    unfolding p1
  proof (intro ballI impI)
    fix p' assume "p' \<in> set (map (apply_writes ?P1) (pages s))" and b: "bookId p' = cast M bid"
    then obtain p where p: "p \<in> set (pages s)" "p' = apply_writes ?P1 p" by auto
    have pb: "bookId p = cast M bid" using b p(2) by simp
    show "if page_id p' \<in> ?ids then pageNumber p' < 0 else pageNumber p' \<notin> newPageNumber ` set es"
    proof (cases "page_id p \<in> ?ids")
      case True
      then obtain e where e: "e \<in> set es" "page_id p = cast M (pageId e)" by auto
      have "\<exists>w\<in>set ?P1. fst w = cast M (pageId e) \<and> fst (snd w) = cast M bid"
        using e(1) by (rule placeholder_writes_ids)
      then have "\<exists>w\<in>set ?P1. page_id p = fst w \<and> bookId p = fst (snd w)"
        unfolding e(2) pb by (elim bexE conjE, intro bexI conjI) simp_all
      then have "pageNumber (apply_writes ?P1 p) \<in> (\<lambda>w. snd (snd w)) ` set ?P1"
        by (rule apply_writes_matched)
      then obtain w where "w \<in> set ?P1" "pageNumber p' = snd (snd w)" using p(2) by auto
      then have "pageNumber p' < 0" using placeholder_writes_mem[of w M bid 0 es] by simp
      with True p(2) show ?thesis by simp
    next
      case False
      then have "\<forall>w\<in>set ?P1. \<not> (page_id p = fst w \<and> bookId p = fst (snd w))"
        using placeholder_writes_mem[of _ M bid 0 es] by auto
      then have "p' = p" unfolding p(2) by (rule apply_writes_unmatched)
      moreover have "pageNumber p \<notin> newPageNumber ` set es"
        using bspec[OF free p(1)] pb False by simp
      ultimately show ?thesis using False by simp
    qed
  qed
  show ok2: "\<exists>n. fst (phase2 M bid es c ?s1) = Inr n"
    using d1 de dt nn inv by (rule phase2_ok)
  then obtain n where n: "fst (phase2 M bid es c ?s1) = Inr n" by (elim exE)
  show "pages (snd (phase2 M bid es c ?s1)) = map (requested M bid es) (pages s)"
    using d de ok1 n by (rule phases_requested)
qed



lemma findOneAndUpdate_assigned:
  assumes "fst (findOneAndUpdate M s pid bid n) = Inr r"
    and "\<exists>p\<in>set (pages s). page_id p = cast M pid \<and> bookId p = cast M bid"
  shows "\<exists>q\<in>set (pages (snd (findOneAndUpdate M s pid bid n))).
           page_id q = cast M pid \<and> bookId q = cast M bid \<and> pageNumber q = n"
proof (cases rule: findOneAndUpdate_cases[of M pid bid s n])
  case absent
  then have "\<forall>p\<in>set (pages s). \<not> (page_id p = cast M pid \<and> bookId p = cast M bid)"
    by (simp add: find_None_iff)
  with assms(2) show ?thesis by blast
next
  case (rejected xs p ys)
  with assms(1) show ?thesis by simp
next
  case (written xs p ys)
  show ?thesis
    unfolding written(6) using written(3,4)
    by (intro bexI[of _ "p\<lparr>pageNumber := n\<rparr>"]) simp_all
qed

lemma phase1_resolves:
  "(\<exists>q\<in>set (pages (snd (phase1 M bid i es s))). page_id q = c \<and> bookId q = d) =
   (\<exists>q\<in>set (pages s). page_id q = c \<and> bookId q = d)"
proof (induction es arbitrary: i s)
  case Nil
  show ?case by simp
next
  case (Cons e es)
  let ?r = "findOneAndUpdate M s (pageId e) bid (- (int i + 1))"
  show ?case
  proof (cases "fst ?r")
    case (Inl err)
    show ?thesis unfolding phase1_Inl[OF Inl] by (simp add: findOneAndUpdate_resolves)
  next
    case (Inr r)
    have "(\<exists>q\<in>set (pages (snd (phase1 M bid (Suc i) es (snd ?r)))). page_id q = c \<and> bookId q = d) =
        (\<exists>q\<in>set (pages (snd ?r)). page_id q = c \<and> bookId q = d)"
      by (rule Cons.IH)
    also have "\<dots> = (\<exists>q\<in>set (pages s). page_id q = c \<and> bookId q = d)"
      by (rule findOneAndUpdate_resolves)
    finally show ?thesis unfolding phase1_Inr[OF Inr] .
  qed
qed

text \<open>
  A run of a loop on a list of entries passes through the states of its runs on the
  prefixes of the list.
\<close>

lemma phase1_append:
  "phase1 M bid i (xs @ ys) s =
     (case fst (phase1 M bid i xs s) of
        Some err \<Rightarrow> phase1 M bid i xs s
      | None \<Rightarrow> phase1 M bid (i + length xs) ys (snd (phase1 M bid i xs s)))"
proof (induction xs arbitrary: i s)
  case Nil
  show ?case by simp
next
  case (Cons e xs)
  let ?r = "findOneAndUpdate M s (pageId e) bid (- (int i + 1))"
  show ?case
  proof (cases "fst ?r")
    case (Inl err)
    show ?thesis unfolding append_Cons phase1_Inl[OF Inl] by simp
  next
    case (Inr r)
    show ?thesis
      unfolding append_Cons phase1_Inr[OF Inr] Cons.IH by (simp split: option.splits)
  qed
qed

lemma phase2_append:
  "phase2 M bid (xs @ ys) c s =
     (case fst (phase2 M bid xs c s) of
        Inl err \<Rightarrow> phase2 M bid xs c s
      | Inr n \<Rightarrow> phase2 M bid ys n (snd (phase2 M bid xs c s)))"
proof (induction xs arbitrary: c s)
  case Nil
  show ?case by simp
next
  case (Cons e xs)
  let ?r = "findOneAndUpdate M s (pageId e) bid (newPageNumber e)"
  show ?case
  proof (cases "fst ?r")
    case (Inl err)
    show ?thesis unfolding append_Cons phase2_Inl[OF Inl] by simp
  next
    case (Inr r)
    show ?thesis
      unfolding append_Cons phase2_Inr[OF Inr] Cons.IH by (rule refl)
  qed
qed

text \<open>
  The step of Phase 1 for the entry that follows the entries \<open>xs\<close>: one write, of the
  placeholder that the index of the entry determines.
\<close>

lemma phase1_snoc:
  assumes "fst (phase1 M bid i xs s) = None"
  shows "phase1 M bid i (xs @ [e]) s =
     (case findOneAndUpdate M (snd (phase1 M bid i xs s)) (pageId e) bid
             (- (int (i + length xs) + 1)) of
        (Inl err, s') \<Rightarrow> (Some err, s')
      | (Inr result, s') \<Rightarrow> (None, s'))"
proof -
  let ?s1 = "snd (phase1 M bid i xs s)"
  let ?r = "findOneAndUpdate M ?s1 (pageId e) bid (- (int (i + length xs) + 1))"
  have a: "phase1 M bid i (xs @ [e]) s = phase1 M bid (i + length xs) [e] ?s1"
    using assms by (simp add: phase1_append)
  show ?thesis
  proof (cases "fst ?r")
    case (Inl err)
    have "phase1 M bid (i + length xs) [e] ?s1 = (Some err, snd ?r)"
      using Inl by (rule phase1_Inl)
    then show ?thesis unfolding a using Inl by (cases ?r) simp
  next
    case (Inr r)
    have "phase1 M bid (i + length xs) [e] ?s1 = phase1 M bid (Suc (i + length xs)) [] (snd ?r)"
      using Inr by (rule phase1_Inr)
    then show ?thesis unfolding a using Inr by (cases ?r) simp
  qed
qed

lemma phase1_snoc_None:
  "fst (phase1 M bid i (xs @ [e]) s) = None \<Longrightarrow> fst (phase1 M bid i xs s) = None"
  by (cases "fst (phase1 M bid i xs s)") (simp_all add: phase1_append)

text \<open>
  When the step for an entry is accepted and the entry names a page of the book, that page
  holds the placeholder of the entry right after the step.
\<close>

lemma phase1_assigned:
  assumes "fst (phase1 M bid i (xs @ [e]) s) = None"
    and "\<exists>p\<in>set (pages s). page_id p = cast M (pageId e) \<and> bookId p = cast M bid"
  shows "\<exists>q\<in>set (pages (snd (phase1 M bid i (xs @ [e]) s))).
           page_id q = cast M (pageId e) \<and> bookId q = cast M bid \<and>
           pageNumber q = - (int (i + length xs) + 1)"
proof -
  let ?s1 = "snd (phase1 M bid i xs s)"
  let ?r = "findOneAndUpdate M ?s1 (pageId e) bid (- (int (i + length xs) + 1))"
  have ok: "fst (phase1 M bid i xs s) = None"
    using assms(1) by (rule phase1_snoc_None)
  have eq: "phase1 M bid i (xs @ [e]) s =
      (case ?r of (Inl err, s') \<Rightarrow> (Some err, s') | (Inr result, s') \<Rightarrow> (None, s'))"
    using ok by (rule phase1_snoc)
  have "\<exists>r. fst ?r = Inr r"
    using assms(1) unfolding eq by (cases ?r; cases "fst ?r") simp_all
  then obtain r where Inr: "fst ?r = Inr r" by (elim exE)
  have s': "snd (phase1 M bid i (xs @ [e]) s) = snd ?r"
    unfolding eq using Inr by (cases ?r) simp
  have "\<exists>p\<in>set (pages ?s1). page_id p = cast M (pageId e) \<and> bookId p = cast M bid"
    using assms(2) by (simp only: phase1_resolves)
  with Inr show ?thesis unfolding s' by (rule findOneAndUpdate_assigned)
qed

lemma placeholder_writes_nth:
  "i < length es \<Longrightarrow>
     placeholder_writes M bid j es ! i = (cast M (pageId (es ! i)), cast M bid, - (int (j + i) + 1))"
  by (simp add: placeholder_writes_def nth_enumerate_eq)

lemma placeholder_writes_values:
  "map (\<lambda>w. snd (snd w)) (placeholder_writes M bid j es) =
     map (\<lambda>i. - (int i + 1)) [j..<j + length es]"
proof -
  have "map (\<lambda>w. snd (snd w)) (placeholder_writes M bid j es) =
      map (\<lambda>i. - (int i + 1)) (map fst (enumerate j es))"
    by (simp add: placeholder_writes_def comp_def case_prod_unfold del: map_fst_enumerate)
  then show ?thesis unfolding map_fst_enumerate .
qed

lemma placeholder_writes_distinct:
  "distinct (map (\<lambda>w. snd (snd w)) (placeholder_writes M bid j es))"
  unfolding placeholder_writes_values by (simp add: distinct_map inj_on_def)

lemma map_fst_placeholder_writes:
  "map fst (placeholder_writes M bid j es) = map (\<lambda>e. cast M (pageId e)) es"
  by (induction es arbitrary: j) simp_all




lemma find_distinct_key:
  "distinct (map f es) \<Longrightarrow> e \<in> set es \<Longrightarrow> find (\<lambda>x. f x = f e) es = Some e"
proof (induction es)
  case Nil
  then show ?case by simp
next
  case (Cons a es)
  show ?case
  proof (cases "a = e")
    case True
    then show ?thesis by simp
  next
    case False
    then have e: "e \<in> set es" using Cons.prems(2) by simp
    then have "f e \<in> f ` set es" by (rule imageI)
    then have "f a \<noteq> f e" using Cons.prems(1) by auto
    moreover have "find (\<lambda>x. f x = f e) es = Some e"
      using Cons.prems(1) e by (intro Cons.IH) simp_all
    ultimately show ?thesis by simp
  qed
qed

lemma distinct_page_id_eq:
  "distinct (map page_id ps) \<Longrightarrow> p \<in> set ps \<Longrightarrow> q \<in> set ps \<Longrightarrow> page_id p = page_id q \<Longrightarrow> p = q"
  by (simp add: distinct_map inj_on_def)

lemma unique_positions_eq:
  "unique_positions b ps \<Longrightarrow> p \<in> set ps \<Longrightarrow> q \<in> set ps \<Longrightarrow> bookId p = b \<Longrightarrow> bookId q = b \<Longrightarrow>
     pageNumber p = pageNumber q \<Longrightarrow> p = q"
  by (simp add: unique_positions_def distinct_map inj_on_def)



section \<open>Properties of the routes\<close>

lemma invalid_format_iff: "invalid_format str = (\<not> hex24 str)"
  by (auto simp add: invalid_format_def hex24_def)

text \<open>The only exception of a conversion is the \<^verbatim>\<open>TypeError\<close>.\<close>

lemma js_String_error: "js_String v = Inl err \<Longrightarrow> err = TypeError"
  by (cases v) (auto split: option.splits)

lemma id_string_error: "id_string v = Inl err \<Longrightarrow> err = TypeError"
  by (auto simp add: id_string_def dest: js_String_error split: if_splits)


lemma id_str_hex24: "hex24 (id_str v) \<Longrightarrow> id_string v = Inr (id_str v)"
  by (cases "id_string v") (simp_all add: id_str_def hex24_def)

lemma id_str_JStr [simp]: "id_str (JStr a) = a"
  by (simp add: id_str_def id_string_def)

text \<open>The validation loop, when no conversion throws.\<close>

lemma validPageOrders_entries:
  "\<forall>item\<in>set items. \<exists>a. id_string (pageId item) = Inr a \<Longrightarrow>
   validPageOrders (map Entry items) =
     Inr (map valid_item (filter (\<lambda>item. hex24 (id_str (pageId item))) items))"
  by (induction items) (auto simp add: invalid_format_iff valid_item_def id_str_def)

lemma validPageOrders_all:
  assumes "\<forall>item\<in>set items. hex24 (id_str (pageId item))"
  shows "validPageOrders (map Entry items) = Inr (map valid_item items)"
proof -
  have "\<forall>item\<in>set items. \<exists>a. id_string (pageId item) = Inr a"
    using assms id_str_hex24 by blast
  then have "validPageOrders (map Entry items) =
      Inr (map valid_item (filter (\<lambda>item. hex24 (id_str (pageId item))) items))"
    by (rule validPageOrders_entries)
  moreover have "filter (\<lambda>item. hex24 (id_str (pageId item))) items = items"
    using assms by (simp add: filter_id_conv)
  ultimately show ?thesis by simp
qed


lemma reorder_rejected:
  "\<not> truthy braw \<or> \<not> isArray po \<or> (\<exists>a. id_string braw = Inr a \<and> \<not> hex24 a) \<Longrightarrow>
     \<exists>msg. reorder M s braw po = (Bad_request msg, s)"
  by (auto simp add: reorder_def invalid_format_iff)

lemma reorder_threw:
  assumes "truthy braw" and "isArray po"
    and "id_string braw = Inl err \<or>
         hex24 (id_str braw) \<and> validPageOrders (elements po) = Inl err"
  shows "reorder M s braw po = (Server_error err, s)"
  using assms(3)
proof
  assume "id_string braw = Inl err"
  then show ?thesis using assms(1,2) by (simp add: reorder_def)
next
  assume h: "hex24 (id_str braw) \<and> validPageOrders (elements po) = Inl err"
  then have "id_string braw = Inr (id_str braw)" by (simp add: id_str_hex24)
  then show ?thesis using assms(1,2) h by (simp add: reorder_def invalid_format_iff)
qed

lemma reorder_failed1:
  assumes "truthy braw" and "hex24 (id_str braw)" and "validPageOrders xs = Inr es"
    and "fst (phase1 M (id_str braw) 0 es s) = Some err"
  shows "reorder M s braw (Array xs) = (Server_error err, snd (phase1 M (id_str braw) 0 es s))"
proof -
  have b: "id_string braw = Inr (id_str braw)" using assms(2) by (rule id_str_hex24)
  show ?thesis
    using assms by (cases "phase1 M (id_str braw) 0 es s") (simp add: reorder_def b invalid_format_iff)
qed

lemma reorder_failed2:
  assumes "truthy braw" and "hex24 (id_str braw)" and "validPageOrders xs = Inr es"
    and "fst (phase1 M (id_str braw) 0 es s) = None"
    and "fst (phase2 M (id_str braw) es 0 (snd (phase1 M (id_str braw) 0 es s))) = Inl err"
  shows "reorder M s braw (Array xs) =
     (Server_error err, snd (phase2 M (id_str braw) es 0 (snd (phase1 M (id_str braw) 0 es s))))"
proof -
  have b: "id_string braw = Inr (id_str braw)" using assms(2) by (rule id_str_hex24)
  show ?thesis
    using assms
    by (cases "phase1 M (id_str braw) 0 es s";
        cases "phase2 M (id_str braw) es 0 (snd (phase1 M (id_str braw) 0 es s))")
      (simp add: reorder_def b invalid_format_iff)
qed

lemma reorder_succeeded:
  assumes "truthy braw" and "hex24 (id_str braw)" and "validPageOrders xs = Inr es"
    and "fst (phase1 M (id_str braw) 0 es s) = None"
    and "fst (phase2 M (id_str braw) es 0 (snd (phase1 M (id_str braw) 0 es s))) = Inr n"
  shows "reorder M s braw (Array xs) =
     (Pages (find_sorted M
        (snd (phase2 M (id_str braw) es 0 (snd (phase1 M (id_str braw) 0 es s)))) (id_str braw)),
      snd (phase2 M (id_str braw) es 0 (snd (phase1 M (id_str braw) 0 es s))))"
proof -
  have b: "id_string braw = Inr (id_str braw)" using assms(2) by (rule id_str_hex24)
  show ?thesis
    using assms
    by (cases "phase1 M (id_str braw) 0 es s";
        cases "phase2 M (id_str braw) es 0 (snd (phase1 M (id_str braw) 0 es s))")
      (simp add: reorder_def b invalid_format_iff)
qed

text \<open>
  The state a reorder leaves is the state before it, or the state of one of its two loops
  on the validated entries.
\<close>

lemma reorder_state:
  "snd (reorder M s braw po) = s \<or>
   (\<exists>es. validPageOrders (elements po) = Inr es \<and>
      (snd (reorder M s braw po) = snd (phase1 M (id_str braw) 0 es s) \<or>
       snd (reorder M s braw po) =
         snd (phase2 M (id_str braw) es 0 (snd (phase1 M (id_str braw) 0 es s)))))"
proof (cases "validPageOrders (elements po)")
  case (Inl err)
  then have "snd (reorder M s braw po) = s"
    by (simp add: reorder_def split: sum.splits)
  then show ?thesis by simp
next
  case (Inr es)
  have "snd (reorder M s braw po) = s \<or>
      snd (reorder M s braw po) = snd (phase1 M (id_str braw) 0 es s) \<or>
      snd (reorder M s braw po) =
        snd (phase2 M (id_str braw) es 0 (snd (phase1 M (id_str braw) 0 es s)))"
    by (cases "phase1 M (id_str braw) 0 es s";
        cases "phase2 M (id_str braw) es 0 (snd (phase1 M (id_str braw) 0 es s))")
      (auto simp add: reorder_def id_str_def Inr split: option.splits sum.splits)
  with Inr show ?thesis by blast
qed

text \<open>
  Validation. A request whose \<^verbatim>\<open>bookId\<close> is missing (not truthy), or whose \<^verbatim>\<open>pageOrder\<close> is
  missing or not an array, or whose identifier string is not 24 hexadecimal digits, is
  answered with status 400. A request whose \<^verbatim>\<open>bookId\<close> has no conversion to a string is
  answered with status 500. In both cases the state is the one before the request: no page
  is changed and no write is issued.
\<close>

lemma reorder_validation_400:
  "\<not> truthy braw \<or> \<not> isArray po \<or> (\<exists>a. id_string braw = Inr a \<and> \<not> hex24 a) \<Longrightarrow>
     status (fst (reorder M s braw po)) = 400 \<and> snd (reorder M s braw po) = s"
  using reorder_rejected[of braw po M s] by auto

lemma reorder_conversion_500:
  "truthy braw \<Longrightarrow> isArray po \<Longrightarrow> id_string braw = Inl err \<Longrightarrow>
     reorder M s braw po = (Server_error TypeError, s)"
  using reorder_threw[of braw po TypeError M s] id_string_error[of braw err] by simp

text \<open>
  C7. The request body \<^verbatim>\<open>{ "bookId": { "toString": "x" }, "pageOrder": [] }\<close> has a
  \<^verbatim>\<open>bookId\<close> that is present and is no well-formed identifier, and a \<^verbatim>\<open>pageOrder\<close> that is a
  list. The conversion \<^verbatim>\<open>String(bookId)\<close>, which the handler's comment calls safe, throws a
  \<^verbatim>\<open>TypeError\<close> before the validation of the format is reached, and the handler answers
  with status 500 where the claim asks for a validation error; the state is unchanged.
\<close>

theorem reorder_bookId_conversion_throws:
  "truthy (JObj [(''toString'', JStr ''x'')]) \<and> isArray (Array []) \<and>
   id_string (JObj [(''toString'', JStr ''x'')]) = Inl TypeError \<and>
   reorder ex_M ex_store (JObj [(''toString'', JStr ''x'')]) (Array []) =
     (Server_error TypeError, ex_store) \<and>
   status (fst (reorder ex_M ex_store (JObj [(''toString'', JStr ''x'')]) (Array []))) = 500"
  by (simp add: reorder_def id_string_def)

theorem reorder_bookId_conversion_throws_witness:
  "status (fst (reorder ex_M ex_store (JObj [(''toString'', JStr ''x'')]) (Array []))) \<noteq> 400 \<and>
   pages (snd (reorder ex_M ex_store (JObj [(''toString'', JStr ''x'')]) (Array []))) =
     [ex_page ex_A 1, ex_page ex_B 2, ex_page ex_C 3] \<and>
   writes (snd (reorder ex_M ex_store (JObj [(''toString'', JStr ''x'')]) (Array []))) = []"
  using reorder_bookId_conversion_throws by (simp add: ex_store_def)

text \<open>
  The same exception in the validation loop: a null element of \<^verbatim>\<open>pageOrder\<close>, or a
  \<^verbatim>\<open>pageId\<close> that has no conversion to a string, ends the request with status 500 before
  any write, whatever the other entries are.
\<close>

lemma reorder_entry_conversion_throws:
  "reorder ex_M ex_store (JStr ex_book) (Array [ex_item ex_A 3, Null_element]) =
     (Server_error TypeError, ex_store) \<and>
   reorder ex_M ex_store (JStr ex_book)
     (Array [ex_item ex_A 3, Entry \<lparr>pageId = JObj [(''toString'', JNull)], newPageNumber = 1\<rparr>]) =
     (Server_error TypeError, ex_store)"
  by code_simp

text \<open>
  C8. Listing the pages of a book: an identifier that \<^verbatim>\<open>ObjectId.isValid\<close> rejects is
  answered with the empty list, and an identifier it accepts with the pages of that book
  in ascending order of page number (each as \<^verbatim>\<open>populate\<close> returns it); the status is 200
  in both cases.
\<close>

theorem get_book_pages_result:
  "status (get_book_pages M s bid) = 200 \<and>
   (\<not> isValid M bid \<longrightarrow> get_book_pages M s bid = Pages []) \<and>
   (isValid M bid \<longrightarrow>
      get_book_pages M s bid =
        Pages (map (populate_page M)
                 (sort_key pageNumber (filter (\<lambda>p. bookId p = cast M bid) (pages s)))) \<and>
      sorted (map pageNumber (find_sorted M s bid)))"
  by (simp add: get_book_pages_def find_sorted_def populate_page_def comp_def)

theorem get_book_pages_result_witness:
  "\<not> isValid ex_M ''abc'' \<and> get_book_pages ex_M ex_store ''abc'' = Pages [] \<and>
   isValid ex_M ex_book \<and>
   get_book_pages ex_M ex_store ex_book = Pages [ex_page ex_A 1, ex_page ex_B 2, ex_page ex_C 3]"
proof -
  have h1: "\<not> isValid ex_M ''abc''" by (simp add: ex_M_def hex24_def)
  have h2: "isValid ex_M ex_book" by (simp add: ex_M_def hex24_def hex_digit_def ex_book_def)
  have e: "map (populate_page ex_M)
      (sort_key pageNumber (filter (\<lambda>p. bookId p = cast ex_M ex_book) (pages ex_store))) =
      [ex_page ex_A 1, ex_page ex_B 2, ex_page ex_C 3]"
    by (simp add: ex_store_def ex_page_def ex_M_def populate_page_def)
  show ?thesis
    using h1 h2 e get_book_pages_result[of ex_M ex_store "''abc''"]
      get_book_pages_result[of ex_M ex_store ex_book]
    by simp
qed

lemma reorder_frame:
  "list_all2 (frame_rel (cast M (id_str braw))) (pages s) (pages (snd (reorder M s braw po)))"
proof -
  have f1: "list_all2 (frame_rel (cast M (id_str braw))) (pages s)
      (pages (snd (phase1 M (id_str braw) 0 es s)))" for es
    by (rule phase1_frame)
  have "list_all2 (frame_rel (cast M (id_str braw))) (pages (snd (phase1 M (id_str braw) 0 es s)))
      (pages (snd (phase2 M (id_str braw) es 0 (snd (phase1 M (id_str braw) 0 es s)))))" for es
    by (rule phase2_frame)
  with f1 have f2: "list_all2 (frame_rel (cast M (id_str braw))) (pages s)
      (pages (snd (phase2 M (id_str braw) es 0 (snd (phase1 M (id_str braw) 0 es s)))))" for es
    by (rule list_all2_frame_trans)
  from reorder_state[of M s braw po] show ?thesis
  proof (elim disjE exE conjE)
    assume "snd (reorder M s braw po) = s"
    then show ?thesis by (simp add: list_all2_frame_refl)
  next
    fix es assume "snd (reorder M s braw po) = snd (phase1 M (id_str braw) 0 es s)"
    then show ?thesis using f1[of es] by simp
  next
    fix es assume "snd (reorder M s braw po) =
        snd (phase2 M (id_str braw) es 0 (snd (phase1 M (id_str braw) 0 es s)))"
    then show ?thesis using f2[of es] by simp
  qed
qed

lemma reorder_unique:
  assumes "unique_positions b (pages s)"
  shows "unique_positions b (pages (snd (reorder M s braw po)))"
proof -
  have u1: "unique_positions b (pages (snd (phase1 M (id_str braw) 0 es s)))" for es
    using assms by (rule phase1_unique)
  have u2: "unique_positions b
      (pages (snd (phase2 M (id_str braw) es 0 (snd (phase1 M (id_str braw) 0 es s)))))" for es
    using u1 by (rule phase2_unique)
  from reorder_state[of M s braw po] show ?thesis
  proof (elim disjE exE conjE)
    assume "snd (reorder M s braw po) = s"
    then show ?thesis using assms by simp
  next
    fix es assume "snd (reorder M s braw po) = snd (phase1 M (id_str braw) 0 es s)"
    then show ?thesis using u1[of es] by simp
  next
    fix es assume "snd (reorder M s braw po) =
        snd (phase2 M (id_str braw) es 0 (snd (phase1 M (id_str braw) 0 es s)))"
    then show ?thesis using u2[of es] by simp
  qed
qed

text \<open>
  C9. A reorder leaves the collection with the same documents in the same order; in
  every document the identifier, the book and the payload are as before, and a document
  of another book than the one of the request is entirely as before, whether or not the
  request lists its identifier. This holds for every request, also for one that is
  rejected or fails.
\<close>

theorem reorder_changes_positions_only:
  "list_all2
     (\<lambda>p p'. page_id p' = page_id p \<and> bookId p' = bookId p \<and> content p' = content p \<and>
              (bookId p \<noteq> cast M (id_str braw) \<longrightarrow> p' = p))
     (pages s) (pages (snd (reorder M s braw po)))"
proof (rule list_all2_mono[OF reorder_frame])
  fix p p' :: "('a, 'b) page"
  assume "frame_rel (cast M (id_str braw)) p p'"
  then have "p' = p\<lparr>pageNumber := pageNumber p'\<rparr>" "bookId p \<noteq> cast M (id_str braw) \<longrightarrow> p' = p"
    by (simp_all add: frame_rel_def)
  then show "page_id p' = page_id p \<and> bookId p' = bookId p \<and> content p' = content p \<and>
      (bookId p \<noteq> cast M (id_str braw) \<longrightarrow> p' = p)"
    by (cases p; cases p') auto
qed

theorem reorder_changes_positions_only_witness:
  "pages (snd (reorder ex_M ex_store (JStr ex_X) (Array [ex_item ex_A 7, ex_item ex_B 1]))) =
     pages ex_store"
proof -
  have b: "cast ex_M (id_str (JStr ex_X)) = ex_X"
    by (simp add: ex_M_def)
  have n: "ex_book \<noteq> ex_X" by (simp add: ex_book_def ex_X_def)
  show ?thesis
    using reorder_changes_positions_only[of ex_M "JStr ex_X" ex_store
        "Array [ex_item ex_A 7, ex_item ex_B 1]"] n
    unfolding b by (auto simp add: ex_store_def ex_page_def list_all2_Cons1)
qed

text \<open>
  C2. Uniqueness of the page numbers within a book is an invariant of the reorder: if no
  two pages of a book hold the same number before the request, then the same is true in
  every state the two loops pass through (the state after the first \<open>k\<close> entries of Phase 1,
  for every \<open>k\<close>, and after the first \<open>k\<close> entries of Phase 2, whatever the book \<open>bid\<close> and the
  entries \<open>es\<close> of the request are), and in the state the handler leaves, whether it
  succeeds, is rejected or fails. The numbers compared are all numbers, so a placeholder
  never equals another placeholder or a positive number of the same book. What keeps the
  invariant is the unique index: a write that would break it is rejected.
\<close>

theorem reorder_keeps_positions_unique:
  assumes "unique_positions b (pages s)"
  shows "(\<forall>k. unique_positions b (pages (snd (phase1 M bid 0 (take k es) s)))) \<and>
         (\<forall>k. unique_positions b
                (pages (snd (phase2 M bid (take k es) 0 (snd (phase1 M bid 0 es s)))))) \<and>
         unique_positions b (pages (snd (reorder M s braw po)))"
proof (intro conjI allI)
  fix k
  show "unique_positions b (pages (snd (phase1 M bid 0 (take k es) s)))"
    using assms(1) by (rule phase1_unique)
  have "unique_positions b (pages (snd (phase1 M bid 0 es s)))"
    using assms(1) by (rule phase1_unique)
  then show "unique_positions b
      (pages (snd (phase2 M bid (take k es) 0 (snd (phase1 M bid 0 es s)))))"
    by (rule phase2_unique)
next
  show "unique_positions b (pages (snd (reorder M s braw po)))"
    using assms(1) by (rule reorder_unique)
qed

theorem reorder_keeps_positions_unique_witness:
  "unique_positions ex_book (pages ex_store) \<and>
   unique_positions ex_book
     (pages (snd (reorder ex_M ex_store (JStr ex_book) (Array [ex_item ex_A 2]))))"
proof -
  have h: "unique_positions ex_book (pages ex_store)"
    by (simp add: unique_positions_def ex_store_def ex_page_def)
  show ?thesis
    using h reorder_keeps_positions_unique[OF h, where M = ex_M and braw = "JStr ex_book"
        and po = "Array [ex_item ex_A 2]"]
    by simp
qed

text \<open>
  A write of Phase 1 can only be rejected for a number below the placeholders used so far
  that a page of the book holds: when no page of the book lies below them, the phase
  completes.
\<close>

lemma phase1_accepted:
  "\<forall>p\<in>set (pages s). bookId p = cast M bid \<longrightarrow> - int i \<le> pageNumber p \<Longrightarrow>
   fst (phase1 M bid i es s) = None"
proof (induction es arbitrary: i s)
  case Nil
  show ?case by simp
next
  case (Cons e es)
  let ?r = "findOneAndUpdate M s (pageId e) bid (- (int i + 1))"
  have step: "(\<exists>r. fst ?r = Inr r) \<and>
      (\<forall>p\<in>set (pages (snd ?r)). bookId p = cast M bid \<longrightarrow> - int (Suc i) \<le> pageNumber p)"
  proof (cases rule: findOneAndUpdate_cases[of M "pageId e" bid s "- (int i + 1)"])
    case absent
    have "\<forall>p\<in>set (pages s). bookId p = cast M bid \<longrightarrow> - int (Suc i) \<le> pageNumber p"
      using Cons.prems by fastforce
    then show ?thesis unfolding absent(2) by simp
  next
    case (rejected xs p ys)
    from rejected(6) obtain q where q: "q \<in> set (xs @ ys)" "bookId q = cast M bid"
      "pageNumber q = - (int i + 1)" by blast
    have "q \<in> set (pages s)" using q(1) rejected(1) by auto
    then have "- int i \<le> pageNumber q" using Cons.prems q(2) by blast
    with q(3) show ?thesis by simp
  next
    case (written xs p ys)
    have "\<forall>x\<in>set (xs @ ys). bookId x = cast M bid \<longrightarrow> - int (Suc i) \<le> pageNumber x"
      using Cons.prems written(1) by fastforce
    then show ?thesis unfolding written(6) by simp
  qed
  then obtain r where Inr: "fst ?r = Inr r" by (elim conjE exE)
  have b: "\<forall>p\<in>set (pages (snd ?r)). bookId p = cast M bid \<longrightarrow> - int (Suc i) \<le> pageNumber p"
    using step by (rule conjunct2)
  show ?case unfolding phase1_Inr[OF Inr] using b by (rule Cons.IH)
qed

text \<open>
  Phase 1 on a collection in which no page of the book holds a negative position: no write
  is rejected, and with unique identifiers every page has received the placeholder writes
  that name it.
\<close>

lemma phase1_completes:
  assumes "\<forall>p\<in>set (pages s). bookId p = cast M bid \<longrightarrow> 0 \<le> pageNumber p"
  shows "fst (phase1 M bid 0 es s) = None"
    and "writes (snd (phase1 M bid 0 es s)) = writes s @ placeholder_writes M bid 0 es"
    and "distinct (map page_id (pages s)) \<Longrightarrow>
           pages (snd (phase1 M bid 0 es s)) =
             map (apply_writes (placeholder_writes M bid 0 es)) (pages s)"
proof -
  show ok: "fst (phase1 M bid 0 es s) = None"
    using assms by (intro phase1_accepted) simp
  from phase1_writes[of es M bid 0 s] obtain k where
    k: "writes (snd (phase1 M bid 0 es s)) = writes s @ take k (placeholder_writes M bid 0 es)"
      "fst (phase1 M bid 0 es s) = None \<longrightarrow> k = length es"
    by (elim exE conjE)
  from k(2) ok have "k = length es" by simp
  with k(1) show "writes (snd (phase1 M bid 0 es s)) = writes s @ placeholder_writes M bid 0 es"
    by simp
  show "pages (snd (phase1 M bid 0 es s)) =
      map (apply_writes (placeholder_writes M bid 0 es)) (pages s)"
    if "distinct (map page_id (pages s))"
    using that ok by (rule phase1_pages)
qed

lemma apply_placeholder_writes:
  assumes "distinct (map (\<lambda>e. cast M (pageId e)) es)" and "i < length es"
    and "page_id p = cast M (pageId (es ! i))" and "bookId p = cast M bid"
  shows "apply_writes (placeholder_writes M bid 0 es) p = p\<lparr>pageNumber := - (int i + 1)\<rparr>"
proof -
  let ?P1 = "placeholder_writes M bid 0 es"
  have "?P1 ! i \<in> set ?P1" using assms(2) by (intro nth_mem) simp
  then have "(cast M (pageId (es ! i)), cast M bid, - (int i + 1)) \<in> set ?P1"
    using assms(2) by (simp add: placeholder_writes_nth)
  moreover have "distinct (map fst ?P1)" using assms(1) by (simp add: map_fst_placeholder_writes)
  ultimately show ?thesis
    using assms(3,4) by (intro apply_writes_distinct) simp_all
qed

text \<open>
  C4. Phase 1, run on the validated entries \<open>es\<close> from index 0. For every request and
  every index \<open>i\<close>: (1) the step for the entry of index \<open>i\<close>, taken in the state that the
  steps for the entries before it leave, is the one write that sets the page number
  \<open>-(i+1)\<close> on the page the entry names; (2) when that write is accepted and the entry names
  a page of the book, that page holds \<open>-(i+1)\<close> right after the step. (3) The writes of the
  phase are the first \<open>k\<close> writes of the list that gives the entry of index \<open>i\<close> the value
  \<open>-(i+1)\<close>, all of them when the phase completes; (4) the values of that list are
  pairwise distinct and negative, hence different from every non-negative page number.
  (5) A placeholder can only meet a negative number that a page of the book holds at rest:
  on a collection in which no page of the book holds a negative position, every write of
  Phase 1 is accepted, for every request, and the phase completes with all its writes
  issued. (6) If moreover the identifiers of the collection are unique, every page has
  received the placeholder writes that name it, and when the entries name distinct pages,
  the page that the entry of index \<open>i\<close> names is left with the page number \<open>-(i+1)\<close> and is
  otherwise as before.
\<close>

theorem phase1_placeholders:
  "(\<forall>i<length es. fst (phase1 M bid 0 (take i es) s) = None \<longrightarrow>
      phase1 M bid 0 (take (Suc i) es) s =
        (case findOneAndUpdate M (snd (phase1 M bid 0 (take i es) s)) (pageId (es ! i)) bid
                (- (int i + 1)) of
           (Inl err, s') \<Rightarrow> (Some err, s')
         | (Inr result, s') \<Rightarrow> (None, s'))) \<and>
   (\<forall>i<length es.
      fst (phase1 M bid 0 (take (Suc i) es) s) = None \<and>
      (\<exists>p\<in>set (pages s). page_id p = cast M (pageId (es ! i)) \<and> bookId p = cast M bid) \<longrightarrow>
      (\<exists>q\<in>set (pages (snd (phase1 M bid 0 (take (Suc i) es) s))).
         page_id q = cast M (pageId (es ! i)) \<and> bookId q = cast M bid \<and>
         pageNumber q = - (int i + 1))) \<and>
   (\<exists>k\<le>length es.
      writes (snd (phase1 M bid 0 es s)) = writes s @ take k (placeholder_writes M bid 0 es) \<and>
      (fst (phase1 M bid 0 es s) = None \<longrightarrow> k = length es)) \<and>
   (\<forall>i<length es. placeholder_writes M bid 0 es ! i =
      (cast M (pageId (es ! i)), cast M bid, - (int i + 1))) \<and>
   distinct (map (\<lambda>w. snd (snd w)) (placeholder_writes M bid 0 es)) \<and>
   (\<forall>w\<in>set (placeholder_writes M bid 0 es). snd (snd w) < 0) \<and>
   ((\<forall>p\<in>set (pages s). bookId p = cast M bid \<longrightarrow> 0 \<le> pageNumber p) \<longrightarrow>
      fst (phase1 M bid 0 es s) = None \<and>
      writes (snd (phase1 M bid 0 es s)) = writes s @ placeholder_writes M bid 0 es) \<and>
   (distinct (map page_id (pages s)) \<and>
    (\<forall>p\<in>set (pages s). bookId p = cast M bid \<longrightarrow> 0 \<le> pageNumber p) \<longrightarrow>
      pages (snd (phase1 M bid 0 es s)) =
        map (apply_writes (placeholder_writes M bid 0 es)) (pages s) \<and>
      (distinct (map (\<lambda>e. cast M (pageId e)) es) \<longrightarrow>
         (\<forall>i<length es. \<forall>p\<in>set (pages s).
            page_id p = cast M (pageId (es ! i)) \<and> bookId p = cast M bid \<longrightarrow>
            p\<lparr>pageNumber := - (int i + 1)\<rparr> \<in> set (pages (snd (phase1 M bid 0 es s))))))"
proof (intro conjI impI allI ballI)
  fix i assume i: "i < length es" and ok: "fst (phase1 M bid 0 (take i es) s) = None"
  have t: "take (Suc i) es = take i es @ [es ! i]"
    using i by (rule take_Suc_conv_app_nth)
  have l: "0 + length (take i es) = i" using i by simp
  show "phase1 M bid 0 (take (Suc i) es) s =
      (case findOneAndUpdate M (snd (phase1 M bid 0 (take i es) s)) (pageId (es ! i)) bid
              (- (int i + 1)) of
         (Inl err, s') \<Rightarrow> (Some err, s')
       | (Inr result, s') \<Rightarrow> (None, s'))"
    unfolding t using phase1_snoc[OF ok, of "es ! i"] unfolding l .
next
  fix i assume i: "i < length es"
    and h: "fst (phase1 M bid 0 (take (Suc i) es) s) = None \<and>
      (\<exists>p\<in>set (pages s). page_id p = cast M (pageId (es ! i)) \<and> bookId p = cast M bid)"
  have t: "take (Suc i) es = take i es @ [es ! i]"
    using i by (rule take_Suc_conv_app_nth)
  have l: "0 + length (take i es) = i" using i by simp
  have ok: "fst (phase1 M bid 0 (take i es @ [es ! i]) s) = None"
    using h unfolding t by (rule conjunct1)
  have ex: "\<exists>p\<in>set (pages s). page_id p = cast M (pageId (es ! i)) \<and> bookId p = cast M bid"
    using h by (rule conjunct2)
  show "\<exists>q\<in>set (pages (snd (phase1 M bid 0 (take (Suc i) es) s))).
      page_id q = cast M (pageId (es ! i)) \<and> bookId q = cast M bid \<and>
      pageNumber q = - (int i + 1)"
    unfolding t using phase1_assigned[OF ok ex] unfolding l .
next
  show "\<exists>k\<le>length es.
      writes (snd (phase1 M bid 0 es s)) = writes s @ take k (placeholder_writes M bid 0 es) \<and>
      (fst (phase1 M bid 0 es s) = None \<longrightarrow> k = length es)"
    by (rule phase1_writes)
next
  fix i assume "i < length es"
  then show "placeholder_writes M bid 0 es ! i =
      (cast M (pageId (es ! i)), cast M bid, - (int i + 1))"
    by (simp add: placeholder_writes_nth)
next
  show "distinct (map (\<lambda>w. snd (snd w)) (placeholder_writes M bid 0 es))"
    by (rule placeholder_writes_distinct)
next
  fix w assume "w \<in> set (placeholder_writes M bid 0 es)"
  then show "snd (snd w) < 0" using placeholder_writes_mem by fast
next
  assume pos: "\<forall>p\<in>set (pages s). bookId p = cast M bid \<longrightarrow> 0 \<le> pageNumber p"
  show "fst (phase1 M bid 0 es s) = None"
    using pos by (rule phase1_completes(1))
  show "writes (snd (phase1 M bid 0 es s)) = writes s @ placeholder_writes M bid 0 es"
    using pos by (rule phase1_completes(2))
next
  assume h: "distinct (map page_id (pages s)) \<and>
      (\<forall>p\<in>set (pages s). bookId p = cast M bid \<longrightarrow> 0 \<le> pageNumber p)"
  then have d: "distinct (map page_id (pages s))"
    and pos: "\<forall>p\<in>set (pages s). bookId p = cast M bid \<longrightarrow> 0 \<le> pageNumber p"
    by blast+
  show pg: "pages (snd (phase1 M bid 0 es s)) =
      map (apply_writes (placeholder_writes M bid 0 es)) (pages s)"
    using pos d by (rule phase1_completes(3))
  fix i p
  assume de: "distinct (map (\<lambda>e. cast M (pageId e)) es)" and i: "i < length es"
    and p: "p \<in> set (pages s)"
    and m: "page_id p = cast M (pageId (es ! i)) \<and> bookId p = cast M bid"
  have "apply_writes (placeholder_writes M bid 0 es) p = p\<lparr>pageNumber := - (int i + 1)\<rparr>"
    using de i m by (intro apply_placeholder_writes) simp_all
  then show "p\<lparr>pageNumber := - (int i + 1)\<rparr> \<in> set (pages (snd (phase1 M bid 0 es s)))"
    unfolding pg using p by (metis imageI set_map)
qed

theorem phase1_placeholders_witness:
  "validPageOrders [ex_item ex_A 3, ex_item ex_B 1, ex_item ex_C 2] =
     Inr [\<lparr>pageId = ex_A, newPageNumber = 3\<rparr>, \<lparr>pageId = ex_B, newPageNumber = 1\<rparr>,
          \<lparr>pageId = ex_C, newPageNumber = 2\<rparr>] \<and>
   fst (phase1 ex_M ex_book 0
          [\<lparr>pageId = ex_A, newPageNumber = 3\<rparr>, \<lparr>pageId = ex_B, newPageNumber = 1\<rparr>,
           \<lparr>pageId = ex_C, newPageNumber = 2\<rparr>] ex_store) = None \<and>
   pages (snd (phase1 ex_M ex_book 0
          [\<lparr>pageId = ex_A, newPageNumber = 3\<rparr>, \<lparr>pageId = ex_B, newPageNumber = 1\<rparr>,
           \<lparr>pageId = ex_C, newPageNumber = 2\<rparr>] ex_store)) =
     [ex_page ex_A (- 1), ex_page ex_B (- 2), ex_page ex_C (- 3)] \<and>
   writes (snd (phase1 ex_M ex_book 0
          [\<lparr>pageId = ex_A, newPageNumber = 3\<rparr>, \<lparr>pageId = ex_B, newPageNumber = 1\<rparr>,
           \<lparr>pageId = ex_C, newPageNumber = 2\<rparr>] ex_store)) =
     [(ex_A, ex_book, - 1), (ex_B, ex_book, - 2), (ex_C, ex_book, - 3)] \<and>
   (\<exists>q\<in>set (pages (snd (phase1 ex_M ex_book 0
          [\<lparr>pageId = ex_A, newPageNumber = 3\<rparr>, \<lparr>pageId = ex_B, newPageNumber = 1\<rparr>] ex_store))).
      page_id q = ex_B \<and> bookId q = ex_book \<and> pageNumber q = - 2)"
proof -
  let ?es = "[\<lparr>pageId = ex_A, newPageNumber = 3\<rparr>, \<lparr>pageId = ex_B, newPageNumber = 1\<rparr>,
              \<lparr>pageId = ex_C, newPageNumber = 2 :: int\<rparr>]"
  have v: "validPageOrders [ex_item ex_A 3, ex_item ex_B 1, ex_item ex_C 2] = Inr ?es"
    by code_simp
  have h: "distinct (map page_id (pages ex_store)) \<and>
      (\<forall>p\<in>set (pages ex_store). bookId p = cast ex_M ex_book \<longrightarrow> 0 \<le> pageNumber p)"
    by code_simp
  have pg: "map (apply_writes (placeholder_writes ex_M ex_book 0 ?es)) (pages ex_store) =
      [ex_page ex_A (- 1), ex_page ex_B (- 2), ex_page ex_C (- 3)]"
    by code_simp
  have ws: "writes ex_store @ placeholder_writes ex_M ex_book 0 ?es =
      [(ex_A, ex_book, - 1), (ex_B, ex_book, - 2), (ex_C, ex_book, - 3)]"
    by code_simp
  note t = phase1_placeholders[where M = ex_M and bid = ex_book and s = ex_store and es = ?es]
  note t7 = conjunct2[OF conjunct2[OF conjunct2[OF conjunct2[OF conjunct2[OF conjunct2[OF t]]]]]]
  note c = mp[OF conjunct1[OF t7] conjunct2[OF h]]
  note c' = mp[OF conjunct2[OF t7] h]
  have ok: "fst (phase1 ex_M ex_book 0 ?es ex_store) = None"
    using c by (rule conjunct1)
  have w1: "writes (snd (phase1 ex_M ex_book 0 ?es ex_store)) =
      writes ex_store @ placeholder_writes ex_M ex_book 0 ?es"
    using c by (rule conjunct2)
  have p1: "pages (snd (phase1 ex_M ex_book 0 ?es ex_store)) =
      map (apply_writes (placeholder_writes ex_M ex_book 0 ?es)) (pages ex_store)"
    using c' by (rule conjunct1)
  note t2 = conjunct1[OF conjunct2[OF t]]
  have i1: "Suc 0 < length ?es" by simp
  have h2: "fst (phase1 ex_M ex_book 0 (take (Suc (Suc 0)) ?es) ex_store) = None \<and>
      (\<exists>p\<in>set (pages ex_store).
         page_id p = cast ex_M (pageId (?es ! Suc 0)) \<and> bookId p = cast ex_M ex_book)"
    by code_simp
  have "\<exists>q\<in>set (pages (snd (phase1 ex_M ex_book 0 (take (Suc (Suc 0)) ?es) ex_store))).
      page_id q = cast ex_M (pageId (?es ! Suc 0)) \<and> bookId q = cast ex_M ex_book \<and>
      pageNumber q = - (int (Suc 0) + 1)"
    using mp[OF spec[OF t2] i1] h2 by (rule mp)
  then have st: "\<exists>q\<in>set (pages (snd (phase1 ex_M ex_book 0
        [\<lparr>pageId = ex_A, newPageNumber = 3\<rparr>, \<lparr>pageId = ex_B, newPageNumber = 1\<rparr>] ex_store))).
      page_id q = ex_B \<and> bookId q = ex_book \<and> pageNumber q = - 2"
    by (simp add: ex_M_def)
  from v ok p1[unfolded pg] w1[unfolded ws] st show ?thesis by (intro conjI)
qed

text \<open>A reorder answered with status 200 has run both loops to their end.\<close>

lemma reorder_200:
  assumes "status (fst (reorder M s braw po)) = 200"
  shows "truthy braw" and "isArray po" and "hex24 (id_str braw)"
    and "\<exists>es. validPageOrders (elements po) = Inr es"
  using assms
  by (auto simp add: reorder_def id_str_def invalid_format_iff
      split: if_splits prod.splits option.splits sum.splits)

lemma reorder_200_phases:
  assumes "status (fst (reorder M s braw po)) = 200"
    and "bid = id_str braw" and "validPageOrders (elements po) = Inr es"
  shows "fst (phase1 M bid 0 es s) = None"
    and "\<exists>n. fst (phase2 M bid es 0 (snd (phase1 M bid 0 es s))) = Inr n"
    and "snd (reorder M s braw po) = snd (phase2 M bid es 0 (snd (phase1 M bid 0 es s)))"
    and "fst (reorder M s braw po) = Pages (find_sorted M (snd (reorder M s braw po)) bid)"
  using assms(1,3) unfolding assms(2)
  by (auto simp add: reorder_def id_str_def
      split: if_splits prod.splits option.splits sum.splits)

lemma reorder_success_requested:
  assumes "status (fst (reorder M s braw po)) = 200"
    and "bid = id_str braw" and "validPageOrders (elements po) = Inr es"
    and "distinct (map page_id (pages s))"
    and "distinct (map (\<lambda>e. cast M (pageId e)) es)"
  shows "pages (snd (reorder M s braw po)) = map (requested M bid es) (pages s)"
proof -
  note r = reorder_200_phases[OF assms(1,2,3)]
  from r(2) obtain n where n: "fst (phase2 M bid es 0 (snd (phase1 M bid 0 es s))) = Inr n"
    by (elim exE)
  show ?thesis
    unfolding r(3) using assms(4,5) r(1) n by (rule phases_requested)
qed

text \<open>A request that cannot collide succeeds, and leaves the requested mapping.\<close>

lemma reorder_requested:
  assumes "truthy braw" and "hex24 (id_str braw)"
    and "bid = id_str braw" and "validPageOrders xs = Inr es"
    and "distinct (map page_id (pages s))"
    and "\<forall>p\<in>set (pages s). bookId p = cast M bid \<longrightarrow> 0 \<le> pageNumber p"
    and "distinct (map (\<lambda>e. cast M (pageId e)) es)"
    and "distinct (map newPageNumber es)"
    and "\<forall>e\<in>set es. 0 \<le> newPageNumber e"
    and "\<forall>p\<in>set (pages s). bookId p = cast M bid \<longrightarrow>
           page_id p \<notin> (\<lambda>e. cast M (pageId e)) ` set es \<longrightarrow>
           pageNumber p \<notin> newPageNumber ` set es"
  shows "fst (reorder M s braw (Array xs)) =
           Pages (find_sorted M (snd (reorder M s braw (Array xs))) bid)"
    and "pages (snd (reorder M s braw (Array xs))) = map (requested M bid es) (pages s)"
proof -
  let ?s1 = "snd (phase1 M bid 0 es s)"
  let ?s2 = "snd (phase2 M bid es 0 ?s1)"
  have ok1: "fst (phase1 M bid 0 es s) = None"
    using assms(5-10) by (rule two_phases(1))
  have "\<exists>n. fst (phase2 M bid es 0 ?s1) = Inr n"
    using assms(5-10) by (rule two_phases(2))
  then obtain n where ok2: "fst (phase2 M bid es 0 ?s1) = Inr n" by (elim exE)
  have p: "pages ?s2 = map (requested M bid es) (pages s)"
    using assms(5-10) by (rule two_phases(3))
  have r: "reorder M s braw (Array xs) = (Pages (find_sorted M ?s2 bid), ?s2)"
    using assms(1,2,4) ok1 ok2 unfolding assms(3) by (rule reorder_succeeded)
  show "fst (reorder M s braw (Array xs)) =
      Pages (find_sorted M (snd (reorder M s braw (Array xs))) bid)"
    unfolding r by simp
  show "pages (snd (reorder M s braw (Array xs))) = map (requested M bid es) (pages s)"
    unfolding r using p by simp
qed


text \<open>
  C1, as stated, is false: in the book of three pages at the positions 1, 2, 3, the
  request that moves the one page \<open>A\<close> to position 2 gives one target position to one
  existing page of the book, with well-formed identifiers. Phase 1 puts \<open>A\<close> at \<open>-1\<close>;
  the write of Phase 2 meets the page \<open>B\<close> at position 2, which the request does not
  list, and the unique index rejects it. The response is the status 500, and \<open>A\<close> is
  left at \<open>-1\<close>, not at 2.
\<close>

theorem reorder_partial_request_counterexample:
  "hex24 ex_book \<and> hex24 ex_A \<and> ex_page ex_A 1 \<in> set (pages ex_store) \<and>
   status (fst (reorder ex_M ex_store (JStr ex_book) (Array [ex_item ex_A 2]))) = 500 \<and>
   pages (snd (reorder ex_M ex_store (JStr ex_book) (Array [ex_item ex_A 2]))) =
     [ex_page ex_A (- 1), ex_page ex_B 2, ex_page ex_C 3]"
  by code_simp

text \<open>
  C1, amended. Let the request name a well-formed book and list \<open>N\<close> well-formed
  identifiers of \<open>N\<close> distinct existing pages of that book, with \<open>N\<close> distinct target
  positions; let the identifiers of the collection be unique. (1) If the reorder succeeds
  (status 200), the response is the full page set of the book in ascending order of
  position, and every listed page holds its requested position. (2) The reorder does
  succeed if no page of the book holds a negative position before the request, no
  requested position is negative, and no requested position is held by a page of the
  book that the request does not list.
\<close>

theorem reorder_sets_requested_positions:
  assumes "truthy braw" and "hex24 (id_str braw)" and "bid = id_str braw"
    and "\<forall>item\<in>set items. hex24 (id_str (pageId item))"
    and "\<forall>item\<in>set items. \<exists>p\<in>set (pages s).
           page_id p = cast M (id_str (pageId item)) \<and> bookId p = cast M bid"
    and "distinct (map (\<lambda>item. cast M (id_str (pageId item))) items)"
    and "distinct (map newPageNumber items)"
    and "distinct (map page_id (pages s))"
  shows "(status (fst (reorder M s braw (Array (map Entry items)))) = 200 \<longrightarrow>
           fst (reorder M s braw (Array (map Entry items))) =
             Pages (map (populate_page M)
               (sort_key pageNumber
                 (filter (\<lambda>p. bookId p = cast M bid)
                    (pages (snd (reorder M s braw (Array (map Entry items)))))))) \<and>
           sorted (map pageNumber
             (sort_key pageNumber
               (filter (\<lambda>p. bookId p = cast M bid)
                  (pages (snd (reorder M s braw (Array (map Entry items)))))))) \<and>
           (\<forall>item\<in>set items. \<exists>p\<in>set (pages (snd (reorder M s braw (Array (map Entry items))))).
              page_id p = cast M (id_str (pageId item)) \<and> bookId p = cast M bid \<and>
              pageNumber p = newPageNumber item)) \<and>
         ((\<forall>p\<in>set (pages s). bookId p = cast M bid \<longrightarrow> 0 \<le> pageNumber p) \<and>
          (\<forall>item\<in>set items. 0 \<le> newPageNumber item) \<and>
          (\<forall>p\<in>set (pages s). bookId p = cast M bid \<longrightarrow>
             page_id p \<notin> (\<lambda>item. cast M (id_str (pageId item))) ` set items \<longrightarrow>
             pageNumber p \<notin> newPageNumber ` set items) \<longrightarrow>
           status (fst (reorder M s braw (Array (map Entry items)))) = 200)"
proof (intro conjI impI)
  let ?es = "map valid_item items"
  let ?po = "Array (map Entry items)"
  let ?s' = "snd (reorder M s braw ?po)"
  have es: "validPageOrders (map Entry items) = Inr ?es"
    using assms(4) by (rule validPageOrders_all)
  have ids: "map (\<lambda>e. cast M (pageId e)) ?es = map (\<lambda>item. cast M (id_str (pageId item))) items"
    and tgs: "map newPageNumber ?es = map newPageNumber items"
    by (simp_all add: valid_item_def comp_def)
  have ids': "(\<lambda>e. cast M (pageId e)) ` set ?es = (\<lambda>item. cast M (id_str (pageId item))) ` set items"
    and tgs': "newPageNumber ` set ?es = newPageNumber ` set items"
    by (simp_all add: valid_item_def image_image)
  have de: "distinct (map (\<lambda>e. cast M (pageId e)) ?es)" unfolding ids by (rule assms(6))
  have dt: "distinct (map newPageNumber ?es)" unfolding tgs by (rule assms(7))
  {
    assume ok: "status (fst (reorder M s braw ?po)) = 200"
    have es': "validPageOrders (elements ?po) = Inr ?es" using es by simp
    have pg: "pages ?s' = map (requested M bid ?es) (pages s)"
      using ok assms(3) es' assms(8) de by (rule reorder_success_requested)
    have "fst (reorder M s braw ?po) = Pages (find_sorted M ?s' bid)"
      using ok assms(3) es' by (rule reorder_200_phases(4))
    then show "fst (reorder M s braw ?po) =
        Pages (map (populate_page M)
          (sort_key pageNumber (filter (\<lambda>p. bookId p = cast M bid) (pages ?s'))))"
      by (simp add: find_sorted_def)
    show "sorted (map pageNumber
        (sort_key pageNumber (filter (\<lambda>p. bookId p = cast M bid) (pages ?s'))))"
      by (rule sorted_sort_key)
    show "\<forall>item\<in>set items. \<exists>p\<in>set (pages ?s').
        page_id p = cast M (id_str (pageId item)) \<and> bookId p = cast M bid \<and>
        pageNumber p = newPageNumber item"
    proof
      fix item assume item: "item \<in> set items"
      from bspec[OF assms(5) item] obtain p where p: "p \<in> set (pages s)"
        "page_id p = cast M (id_str (pageId item))" "bookId p = cast M bid"
        by (elim bexE conjE)
      have "valid_item item \<in> set ?es" using item by simp
      with de have "find (\<lambda>x. cast M (pageId x) = cast M (pageId (valid_item item))) ?es =
          Some (valid_item item)" by (rule find_distinct_key)
      then have "find (\<lambda>x. cast M (pageId x) = page_id p) ?es = Some (valid_item item)"
        using p(2) by (simp add: valid_item_def)
      then have q: "requested M bid ?es p = p\<lparr>pageNumber := newPageNumber item\<rparr>"
        using p(3) by (simp add: requested_def valid_item_def)
      have "requested M bid ?es p \<in> set (pages ?s')"
        unfolding pg using p(1) by simp
      then show "\<exists>p\<in>set (pages ?s'). page_id p = cast M (id_str (pageId item)) \<and>
          bookId p = cast M bid \<and> pageNumber p = newPageNumber item"
        unfolding q using p(2,3)
        by (intro bexI[of _ "p\<lparr>pageNumber := newPageNumber item\<rparr>"]) simp_all
    qed
  }
  {
    assume h: "(\<forall>p\<in>set (pages s). bookId p = cast M bid \<longrightarrow> 0 \<le> pageNumber p) \<and>
          (\<forall>item\<in>set items. 0 \<le> newPageNumber item) \<and>
          (\<forall>p\<in>set (pages s). bookId p = cast M bid \<longrightarrow>
             page_id p \<notin> (\<lambda>item. cast M (id_str (pageId item))) ` set items \<longrightarrow>
             pageNumber p \<notin> newPageNumber ` set items)"
    then have pos: "\<forall>p\<in>set (pages s). bookId p = cast M bid \<longrightarrow> 0 \<le> pageNumber p"
      and nn0: "\<forall>item\<in>set items. 0 \<le> newPageNumber item"
      and free0: "\<forall>p\<in>set (pages s). bookId p = cast M bid \<longrightarrow>
             page_id p \<notin> (\<lambda>item. cast M (id_str (pageId item))) ` set items \<longrightarrow>
             pageNumber p \<notin> newPageNumber ` set items"
      by blast+
    have nn: "\<forall>e\<in>set ?es. 0 \<le> newPageNumber e" using nn0 by (simp add: valid_item_def)
    have free: "\<forall>p\<in>set (pages s). bookId p = cast M bid \<longrightarrow>
        page_id p \<notin> (\<lambda>e. cast M (pageId e)) ` set ?es \<longrightarrow> pageNumber p \<notin> newPageNumber ` set ?es"
      unfolding ids' tgs' by (rule free0)
    note r = reorder_requested[OF assms(1,2,3) es assms(8) pos de dt nn free]
    show "status (fst (reorder M s braw ?po)) = 200" unfolding r(1) by simp
  }
qed

theorem reorder_sets_requested_positions_witness:
  "fst (reorder ex_M ex_store (JStr ex_book) (Array [ex_item ex_A 3, ex_item ex_B 1, ex_item ex_C 2])) =
     Pages [ex_page ex_B 1, ex_page ex_C 2, ex_page ex_A 3]"
proof -
  let ?items = "[\<lparr>pageId = JStr ex_A, newPageNumber = 3\<rparr>, \<lparr>pageId = JStr ex_B, newPageNumber = 1\<rparr>,
                 \<lparr>pageId = JStr ex_C, newPageNumber = 2 :: int\<rparr>]"
  let ?po = "Array [ex_item ex_A 3, ex_item ex_B 1, ex_item ex_C 2]"
  let ?s' = "snd (reorder ex_M ex_store (JStr ex_book) ?po)"
  have po: "Array (map Entry ?items) = ?po" by (simp add: ex_item_def)
  have h1: "truthy (JStr ex_book)" by (simp add: ex_book_def)
  have h2: "hex24 (id_str (JStr ex_book))" by code_simp
  have h4: "\<forall>item\<in>set ?items. hex24 (id_str (pageId item))" by code_simp
  have h5: "\<forall>item\<in>set ?items. \<exists>p\<in>set (pages ex_store).
      page_id p = cast ex_M (id_str (pageId item)) \<and> bookId p = cast ex_M (id_str (JStr ex_book))"
    by code_simp
  have h6: "distinct (map (\<lambda>item. cast ex_M (id_str (pageId item))) ?items)" by code_simp
  have h7: "distinct (map newPageNumber ?items)" by code_simp
  have h8: "distinct (map page_id (pages ex_store))" by code_simp
  have h9: "(\<forall>p\<in>set (pages ex_store). bookId p = cast ex_M (id_str (JStr ex_book)) \<longrightarrow> 0 \<le> pageNumber p) \<and>
      (\<forall>item\<in>set ?items. 0 \<le> newPageNumber item) \<and>
      (\<forall>p\<in>set (pages ex_store). bookId p = cast ex_M (id_str (JStr ex_book)) \<longrightarrow>
        page_id p \<notin> (\<lambda>item. cast ex_M (id_str (pageId item))) ` set ?items \<longrightarrow>
        pageNumber p \<notin> newPageNumber ` set ?items)"
    by code_simp
  have pages': "pages ?s' = [ex_page ex_A 3, ex_page ex_B 1, ex_page ex_C 2]" by code_simp
  note t = reorder_sets_requested_positions[OF h1 h2 refl h4 h5 h6 h7 h8, unfolded po]
  have ok: "status (fst (reorder ex_M ex_store (JStr ex_book) ?po)) = 200"
    using conjunct2[OF t] h9 by (rule mp)
  have "fst (reorder ex_M ex_store (JStr ex_book) ?po) =
      Pages (map (populate_page ex_M) (sort_key pageNumber
        (filter (\<lambda>p. bookId p = cast ex_M (id_str (JStr ex_book))) (pages ?s'))))"
    using mp[OF conjunct1[OF t] ok] by (rule conjunct1)
  then show ?thesis
    unfolding pages' by (simp add: ex_page_def ex_M_def populate_page_def)
qed

text \<open>
  The other two conditions of the amended statement are needed as well. A negative target
  can meet the placeholder of a later entry, and a negative position left in the book
  can meet a placeholder; both requests are answered with status 500.
\<close>

lemma reorder_negative_target_rejected:
  "status (fst (reorder ex_M ex_store (JStr ex_book) (Array [ex_item ex_A (- 2), ex_item ex_B 5]))) = 500"
  by code_simp

lemma reorder_stale_placeholder_rejected:
  "status (fst (reorder ex_M (ex_store\<lparr>pages := [ex_page ex_A 1, ex_page ex_B (- 1)]\<rparr>)
      (JStr ex_book) (Array [ex_item ex_A 5]))) = 500"
  by code_simp




text \<open>
  C6, as stated, is false: the response carries no count. In the book of three pages,
  the request that lists the existing page \<open>A\<close> (one entry supplied, one applied) and the
  request that lists an identifier that names no page (one entry supplied, none applied)
  receive the same response, although the counter of Phase 2 is 1 for the first and 0 for
  the second.
\<close>

theorem reorder_response_without_count_counterexample:
  "fst (reorder ex_M ex_store (JStr ex_book) (Array [ex_item ex_A 1])) =
     fst (reorder ex_M ex_store (JStr ex_book) (Array [ex_item ex_X 1])) \<and>
   validPageOrders [ex_item ex_A 1] = Inr [\<lparr>pageId = ex_A, newPageNumber = 1\<rparr>] \<and>
   validPageOrders [ex_item ex_X 1] = Inr [\<lparr>pageId = ex_X, newPageNumber = 1\<rparr>] \<and>
   fst (phase2 ex_M ex_book [\<lparr>pageId = ex_A, newPageNumber = 1\<rparr>] 0
          (snd (phase1 ex_M ex_book 0 [\<lparr>pageId = ex_A, newPageNumber = 1\<rparr>] ex_store))) = Inr 1 \<and>
   fst (phase2 ex_M ex_book [\<lparr>pageId = ex_X, newPageNumber = 1\<rparr>] 0
          (snd (phase1 ex_M ex_book 0 [\<lparr>pageId = ex_X, newPageNumber = 1\<rparr>] ex_store))) = Inr 0"
  by code_simp

text \<open>
  C6, amended. The response of a reorder that completes successfully is the page list of
  the book, read from the collection after Phase 2 and sorted by position, and nothing
  else: the number of entries applied is counted (and logged) by the handler but is not
  part of the response.
\<close>

theorem reorder_response_is_page_list:
  "status (fst (reorder M s braw po)) = 200 \<Longrightarrow>
     fst (reorder M s braw po) = Pages (find_sorted M (snd (reorder M s braw po)) (id_str braw))"
  by (auto simp add: reorder_def id_str_def
      split: if_splits prod.splits option.splits sum.splits)

theorem reorder_response_is_page_list_witness:
  "status (fst (reorder ex_M ex_store (JStr ex_book) (Array [ex_item ex_X 1]))) = 200 \<and>
   fst (reorder ex_M ex_store (JStr ex_book) (Array [ex_item ex_X 1])) =
     Pages (find_sorted ex_M (snd (reorder ex_M ex_store (JStr ex_book) (Array [ex_item ex_X 1])))
              (id_str (JStr ex_book)))"
proof -
  have h: "status (fst (reorder ex_M ex_store (JStr ex_book) (Array [ex_item ex_X 1]))) = 200"
    by code_simp
  from h reorder_response_is_page_list[OF h] show ?thesis by (rule conjI)
qed

lemma validPageOrders_single:
  "hex24 a \<Longrightarrow>
     validPageOrders [Entry \<lparr>pageId = JStr a, newPageNumber = n\<rparr>] =
       Inr [\<lparr>pageId = a, newPageNumber = n\<rparr>]"
  by (simp add: id_string_def invalid_format_iff)

text \<open>
  C10. The handler does not look at the requested number. For every collection with
  unique identifiers and no negative position in the book, every page \<open>p\<close> of the book and
  every negative number \<open>n\<close>, the request that asks for \<open>p\<close> to be put at \<open>n\<close> succeeds, and
  leaves \<open>p\<close> at \<open>n\<close> and every other page as before: the negative position is the one at
  rest after the successful reorder.
\<close>

theorem reorder_commits_negative_position:
  assumes "truthy braw" and "hex24 (id_str braw)" and "bid = id_str braw"
    and "hex24 a"
    and "distinct (map page_id (pages s))"
    and "\<forall>q\<in>set (pages s). bookId q = cast M bid \<longrightarrow> 0 \<le> pageNumber q"
    and "p \<in> set (pages s)" and "page_id p = cast M a" and "bookId p = cast M bid"
    and "n < 0"
  shows "status (fst (reorder M s braw (Array [Entry \<lparr>pageId = JStr a, newPageNumber = n\<rparr>]))) = 200 \<and>
         pages (snd (reorder M s braw (Array [Entry \<lparr>pageId = JStr a, newPageNumber = n\<rparr>]))) =
           map (\<lambda>q. if q = p then p\<lparr>pageNumber := n\<rparr> else q) (pages s)"
proof -
  let ?e = "\<lparr>pageId = a, newPageNumber = n\<rparr>"
  let ?items = "[Entry \<lparr>pageId = JStr a, newPageNumber = n\<rparr>]"
  let ?s1 = "snd (phase1 M bid 0 [?e] s)"
  let ?r = "findOneAndUpdate M ?s1 a bid n"
  have es: "validPageOrders ?items = Inr [?e]" using assms(4) by (rule validPageOrders_single)
  have ok1: "fst (phase1 M bid 0 [?e] s) = None"
    using assms(5,6) by (intro phase1_ok) simp_all
  have p1: "pages ?s1 = map (upd (cast M a, cast M bid, - 1)) (pages s)"
    using phase1_pages[OF assms(5) ok1] by simp
  have d1: "distinct (map page_id (pages ?s1))"
    unfolding p1 using assms(5) by (simp add: comp_def)
  have "\<forall>q\<in>set (pages ?s1). bookId q = cast M bid \<and> page_id q \<noteq> cast M a \<longrightarrow> pageNumber q \<noteq> n"
    unfolding p1
  proof (intro ballI impI)
    fix q' assume "q' \<in> set (map (upd (cast M a, cast M bid, - 1)) (pages s))"
      and m: "bookId q' = cast M bid \<and> page_id q' \<noteq> cast M a"
    then obtain q where q: "q \<in> set (pages s)" "q' = upd (cast M a, cast M bid, - 1) q" by auto
    have "page_id q \<noteq> cast M a" using m q(2) by simp
    then have "q' = q" using q(2) by (simp add: upd_def)
    then have "0 \<le> pageNumber q'" using bspec[OF assms(6) q(1)] m by simp
    with assms(10) show "pageNumber q' \<noteq> n" by simp
  qed
  with d1 have "\<exists>r. fst ?r = Inr r" by (rule findOneAndUpdate_ok)
  then obtain r where Inr: "fst ?r = Inr r" by (elim exE)
  have p2: "pages (snd ?r) = map (upd (cast M a, cast M bid, n)) (pages ?s1)"
    using d1 Inr by (rule findOneAndUpdate_pages)
  have ph2: "phase2 M bid [?e] 0 ?s1 = (Inr (if r \<noteq> None then Suc 0 else 0), snd ?r)"
    using phase2_Inr[of M ?s1 ?e bid r "[]" 0] Inr by simp
  have res: "reorder M s braw (Array ?items) =
      (Pages (find_sorted M (snd ?r) (id_str braw)), snd ?r)"
    using reorder_succeeded[OF assms(1,2) es, of M s "if r \<noteq> None then Suc 0 else 0"]
      ok1 ph2 unfolding assms(3) by simp
  have "upd (cast M a, cast M bid, n) (upd (cast M a, cast M bid, - 1) q) =
      (if q = p then p\<lparr>pageNumber := n\<rparr> else q)" if q: "q \<in> set (pages s)" for q
  proof (cases "page_id q = cast M a")
    case True
    then have "q = p" using distinct_page_id_eq[OF assms(5) q assms(7)] assms(8) by simp
    then show ?thesis using assms(8,9) by (simp add: upd_def)
  next
    case False
    then have "q \<noteq> p" using assms(8) by auto
    with False show ?thesis by (simp add: upd_def)
  qed
  then have "pages (snd ?r) = map (\<lambda>q. if q = p then p\<lparr>pageNumber := n\<rparr> else q) (pages s)"
    unfolding p2 p1 by simp
  then show ?thesis unfolding res by simp
qed

theorem reorder_commits_negative_position_witness:
  "status (fst (reorder ex_M ex_store (JStr ex_book) (Array [Entry \<lparr>pageId = JStr ex_B, newPageNumber = - 5\<rparr>]))) = 200 \<and>
   pages (snd (reorder ex_M ex_store (JStr ex_book) (Array [Entry \<lparr>pageId = JStr ex_B, newPageNumber = - 5\<rparr>]))) =
     [ex_page ex_A 1, ex_page ex_B (- 5), ex_page ex_C 3]"
proof -
  have h1: "truthy (JStr ex_book)" by (simp add: ex_book_def)
  have h2: "hex24 (id_str (JStr ex_book))" by code_simp
  have h4: "hex24 ex_B" by code_simp
  have h5: "distinct (map page_id (pages ex_store))" by code_simp
  have h6: "\<forall>q\<in>set (pages ex_store). bookId q = cast ex_M (id_str (JStr ex_book)) \<longrightarrow> 0 \<le> pageNumber q"
    by code_simp
  have h7: "ex_page ex_B 2 \<in> set (pages ex_store)" by (simp add: ex_store_def)
  have h8: "page_id (ex_page ex_B 2) = cast ex_M ex_B" by (simp add: ex_page_def ex_M_def)
  have h9: "bookId (ex_page ex_B 2) = cast ex_M (id_str (JStr ex_book))"
    by (simp add: ex_page_def ex_M_def)
  have h10: "(- 5 :: int) < 0" by simp
  have e: "map (\<lambda>q. if q = ex_page ex_B 2 then (ex_page ex_B 2)\<lparr>pageNumber := - 5\<rparr> else q) (pages ex_store) =
      [ex_page ex_A 1, ex_page ex_B (- 5), ex_page ex_C 3]"
    by (simp add: ex_store_def ex_page_def ex_A_def ex_B_def ex_C_def)
  show ?thesis
    using reorder_commits_negative_position[OF h1 h2 refl h4 h5 h6 h7 h8 h9 h10]
    unfolding e .
qed

lemma reorder_writes:
  assumes "truthy braw" and "hex24 (id_str braw)"
    and "bid = id_str braw" and "validPageOrders xs = Inr es"
  shows "\<exists>k1 k2. k1 \<le> length es \<and> k2 \<le> length es \<and>
           writes (snd (reorder M s braw (Array xs))) =
             writes s @ take k1 (placeholder_writes M bid 0 es) @ take k2 (final_writes M bid es) \<and>
           (0 < k2 \<longrightarrow> k1 = length es) \<and>
           (status (fst (reorder M s braw (Array xs))) = 200 \<longrightarrow>
              k1 = length es \<and> k2 = length es)"
proof -
  let ?r1 = "phase1 M bid 0 es s"
  let ?r2 = "phase2 M bid es 0 (snd ?r1)"
  from phase1_writes[of es M bid 0 s] obtain k1 where k1: "k1 \<le> length es"
    "writes (snd ?r1) = writes s @ take k1 (placeholder_writes M bid 0 es)"
    "fst ?r1 = None \<longrightarrow> k1 = length es"
    by (elim exE conjE)
  from phase2_writes[of es M bid 0 "snd ?r1"] obtain k2 where k2: "k2 \<le> length es"
    "writes (snd ?r2) = writes (snd ?r1) @ take k2 (final_writes M bid es)"
    "(\<exists>n. fst ?r2 = Inr n) \<longrightarrow> k2 = length es"
    by (elim exE conjE)
  show ?thesis
  proof (cases "fst ?r1")
    case (Some err)
    have "reorder M s braw (Array xs) = (Server_error err, snd ?r1)"
      using assms(1,2,4) Some unfolding assms(3) by (rule reorder_failed1)
    then show ?thesis
      using k1 by (intro exI[of _ k1] exI[of _ 0]) simp
  next
    case None
    then have full: "k1 = length es" using k1(3) by simp
    show ?thesis
    proof (cases "fst ?r2")
      case (Inl err)
      have "reorder M s braw (Array xs) = (Server_error err, snd ?r2)"
        using assms(1,2,4) None Inl unfolding assms(3) by (rule reorder_failed2)
      then show ?thesis
        using k1 k2 full by (intro exI[of _ k1] exI[of _ k2]) simp
    next
      case (Inr n)
      then have full2: "k2 = length es" using k2(3) by simp
      have "reorder M s braw (Array xs) =
          (Pages (find_sorted M (snd ?r2) (id_str braw)), snd ?r2)"
        using assms(1,2,4) None Inr unfolding assms(3) by (rule reorder_succeeded)
      then show ?thesis
        using k1 k2 full full2 by (intro exI[of _ k1] exI[of _ k2]) simp
    qed
  qed
qed

text \<open>Two pages of a book exchange their positions.\<close>

lemma reorder_swap:
  assumes "truthy braw" and "hex24 (id_str braw)" and "bid = id_str braw"
    and "hex24 a" and "hex24 b"
    and d: "distinct (map page_id (pages s))"
    and pos: "\<forall>p\<in>set (pages s). bookId p = cast M bid \<longrightarrow> 0 \<le> pageNumber p"
    and u: "unique_positions (cast M bid) (pages s)"
    and pa: "pa \<in> set (pages s)" "page_id pa = cast M a" "bookId pa = cast M bid"
    and pb: "pb \<in> set (pages s)" "page_id pb = cast M b" "bookId pb = cast M bid"
    and ne: "page_id pa \<noteq> page_id pb"
    and sw: "swap = [Entry \<lparr>pageId = JStr a, newPageNumber = pageNumber pb\<rparr>,
                    Entry \<lparr>pageId = JStr b, newPageNumber = pageNumber pa\<rparr>]"
  shows "status (fst (reorder M s braw (Array swap))) = 200"
    and "pages (snd (reorder M s braw (Array swap))) =
           map (\<lambda>p. if p = pa then p\<lparr>pageNumber := pageNumber pb\<rparr>
                    else if p = pb then p\<lparr>pageNumber := pageNumber pa\<rparr> else p) (pages s)"
proof -
  let ?ea = "\<lparr>pageId = a, newPageNumber = pageNumber pb\<rparr>"
  let ?eb = "\<lparr>pageId = b, newPageNumber = pageNumber pa\<rparr>"
  let ?es = "[?ea, ?eb]"
  have es: "validPageOrders swap = Inr ?es"
    unfolding sw using assms(4,5) by (simp add: id_string_def invalid_format_iff)
  have neq: "pa \<noteq> pb" using ne by auto
  have nne: "pageNumber pa \<noteq> pageNumber pb"
    using unique_positions_eq[OF u pa(1) pb(1) pa(3) pb(3)] neq by auto
  have de: "distinct (map (\<lambda>e. cast M (pageId e)) ?es)" using ne pa(2) pb(2) by simp
  have dt: "distinct (map newPageNumber ?es)" using nne by simp
  have nn: "\<forall>e\<in>set ?es. 0 \<le> newPageNumber e"
    using bspec[OF pos pa(1)] bspec[OF pos pb(1)] pa(3) pb(3) by simp
  have free: "\<forall>p\<in>set (pages s). bookId p = cast M bid \<longrightarrow>
       page_id p \<notin> (\<lambda>e. cast M (pageId e)) ` set ?es \<longrightarrow> pageNumber p \<notin> newPageNumber ` set ?es"
  proof (intro ballI impI)
    fix p assume p: "p \<in> set (pages s)" "bookId p = cast M bid"
      and nl: "page_id p \<notin> (\<lambda>e. cast M (pageId e)) ` set ?es"
    from nl have "p \<noteq> pa" "p \<noteq> pb" using pa(2) pb(2) by auto
    then have "pageNumber p \<noteq> pageNumber pa" "pageNumber p \<noteq> pageNumber pb"
      using unique_positions_eq[OF u p(1) pa(1) p(2) pa(3)]
        unique_positions_eq[OF u p(1) pb(1) p(2) pb(3)] by auto
    then show "pageNumber p \<notin> newPageNumber ` set ?es" by simp
  qed
  note r = reorder_requested[OF assms(1,2,3) es d pos de dt nn free]
  show "status (fst (reorder M s braw (Array swap))) = 200" unfolding r(1) by simp
  have "requested M bid ?es p =
      (if p = pa then p\<lparr>pageNumber := pageNumber pb\<rparr>
       else if p = pb then p\<lparr>pageNumber := pageNumber pa\<rparr> else p)" if p: "p \<in> set (pages s)" for p
  proof (cases "page_id p = cast M a")
    case True
    then have "p = pa" using distinct_page_id_eq[OF d p pa(1)] pa(2) by simp
    then show ?thesis using pa(2,3) by (simp add: requested_def)
  next
    case False
    then have npa: "p \<noteq> pa" using pa(2) by auto
    show ?thesis
    proof (cases "page_id p = cast M b")
      case True
      then have "p = pb" using distinct_page_id_eq[OF d p pb(1)] pb(2) by simp
      then show ?thesis using pb(2,3) ne pa(2) neq by (simp add: requested_def)
    next
      case nb: False
      then have "p \<noteq> pb" using pb(2) by auto
      with False nb npa show ?thesis by (simp add: requested_def)
    qed
  qed
  then show "pages (snd (reorder M s braw (Array swap))) =
           map (\<lambda>p. if p = pa then p\<lparr>pageNumber := pageNumber pb\<rparr>
                    else if p = pb then p\<lparr>pageNumber := pageNumber pa\<rparr> else p) (pages s)"
    unfolding r(2) by simp
qed

text \<open>
  C3, as stated, is false in its second part. In the book of three pages at the positions
  1, 2, 3, the request \<open>[C \<rightarrow> -1]\<close> succeeds and leaves \<open>C\<close> at the position \<open>-1\<close> (the handler
  does not look at the requested number). The next request exchanges the positions of
  \<open>A\<close> and \<open>B\<close>, \<open>[A \<rightarrow> 2, B \<rightarrow> 1]\<close>: the first write of Phase 1 gives \<open>A\<close> the placeholder \<open>-1\<close>,
  which \<open>C\<close> holds, and the unique index rejects it. The swap is answered with the status
  500 and a duplicate-key error, and no page is changed.
\<close>

theorem swap_meets_negative_position_counterexample:
  "status (fst (reorder ex_M ex_store (JStr ex_book) (Array [ex_item ex_C (- 1)]))) = 200 \<and>
   pages (snd (reorder ex_M ex_store (JStr ex_book) (Array [ex_item ex_C (- 1)]))) =
     [ex_page ex_A 1, ex_page ex_B 2, ex_page ex_C (- 1)] \<and>
   fst (reorder ex_M (snd (reorder ex_M ex_store (JStr ex_book) (Array [ex_item ex_C (- 1)])))
          (JStr ex_book) (Array [ex_item ex_A 2, ex_item ex_B 1])) = Server_error DuplicateKey \<and>
   status (fst (reorder ex_M (snd (reorder ex_M ex_store (JStr ex_book) (Array [ex_item ex_C (- 1)])))
          (JStr ex_book) (Array [ex_item ex_A 2, ex_item ex_B 1]))) = 500 \<and>
   pages (snd (reorder ex_M (snd (reorder ex_M ex_store (JStr ex_book) (Array [ex_item ex_C (- 1)])))
          (JStr ex_book) (Array [ex_item ex_A 2, ex_item ex_B 1]))) =
     [ex_page ex_A 1, ex_page ex_B 2, ex_page ex_C (- 1)]"
  by code_simp

text \<open>
  C3, amended. (1) The writes a reorder issues, in the order in which it issues them, are a
  prefix of the placeholder writes of Phase 1 followed by a prefix of the final writes of
  Phase 2; when any write of Phase 2 is issued, all writes of Phase 1 have been issued
  before it (and none was rejected, for a rejected write ends the request); a request
  answered with status 200 has issued all writes of both phases. (2) A request that
  exchanges the positions of two pages of a book succeeds, no write being rejected by the
  unique index, and leaves the two pages with exchanged positions and every other page
  as before, provided that no page of the book holds a negative position before the
  request (the identifiers of the collection and the positions of the book being unique).
\<close>

theorem phases_in_order_and_swap_succeeds:
  "(truthy braw \<and> hex24 (id_str braw) \<and> bid = id_str braw \<and> validPageOrders xs = Inr es \<longrightarrow>
      (\<exists>k1 k2. k1 \<le> length es \<and> k2 \<le> length es \<and>
           writes (snd (reorder M s braw (Array xs))) =
             writes s @ take k1 (placeholder_writes M bid 0 es) @ take k2 (final_writes M bid es) \<and>
           (0 < k2 \<longrightarrow> k1 = length es) \<and>
           (status (fst (reorder M s braw (Array xs))) = 200 \<longrightarrow>
              k1 = length es \<and> k2 = length es))) \<and>
   (truthy braw \<and> hex24 (id_str braw) \<and> bid = id_str braw \<and> hex24 a \<and> hex24 b \<and>
    distinct (map page_id (pages s)) \<and>
    (\<forall>p\<in>set (pages s). bookId p = cast M bid \<longrightarrow> 0 \<le> pageNumber p) \<and>
    unique_positions (cast M bid) (pages s) \<and>
    pa \<in> set (pages s) \<and> page_id pa = cast M a \<and> bookId pa = cast M bid \<and>
    pb \<in> set (pages s) \<and> page_id pb = cast M b \<and> bookId pb = cast M bid \<and>
    page_id pa \<noteq> page_id pb \<and>
    swap = [Entry \<lparr>pageId = JStr a, newPageNumber = pageNumber pb\<rparr>,
            Entry \<lparr>pageId = JStr b, newPageNumber = pageNumber pa\<rparr>] \<longrightarrow>
      status (fst (reorder M s braw (Array swap))) = 200 \<and>
      pages (snd (reorder M s braw (Array swap))) =
        map (\<lambda>p. if p = pa then p\<lparr>pageNumber := pageNumber pb\<rparr>
                 else if p = pb then p\<lparr>pageNumber := pageNumber pa\<rparr> else p) (pages s))"
proof (intro conjI impI)
  assume "truthy braw \<and> hex24 (id_str braw) \<and> bid = id_str braw \<and> validPageOrders xs = Inr es"
  then have a: "truthy braw" "hex24 (id_str braw)" "bid = id_str braw" "validPageOrders xs = Inr es"
    by blast+
  show "\<exists>k1 k2. k1 \<le> length es \<and> k2 \<le> length es \<and>
           writes (snd (reorder M s braw (Array xs))) =
             writes s @ take k1 (placeholder_writes M bid 0 es) @ take k2 (final_writes M bid es) \<and>
           (0 < k2 \<longrightarrow> k1 = length es) \<and>
           (status (fst (reorder M s braw (Array xs))) = 200 \<longrightarrow>
              k1 = length es \<and> k2 = length es)"
    using a by (rule reorder_writes)
next
  assume h: "truthy braw \<and> hex24 (id_str braw) \<and> bid = id_str braw \<and> hex24 a \<and> hex24 b \<and>
    distinct (map page_id (pages s)) \<and>
    (\<forall>p\<in>set (pages s). bookId p = cast M bid \<longrightarrow> 0 \<le> pageNumber p) \<and>
    unique_positions (cast M bid) (pages s) \<and>
    pa \<in> set (pages s) \<and> page_id pa = cast M a \<and> bookId pa = cast M bid \<and>
    pb \<in> set (pages s) \<and> page_id pb = cast M b \<and> bookId pb = cast M bid \<and>
    page_id pa \<noteq> page_id pb \<and>
    swap = [Entry \<lparr>pageId = JStr a, newPageNumber = pageNumber pb\<rparr>,
            Entry \<lparr>pageId = JStr b, newPageNumber = pageNumber pa\<rparr>]"
  then have a: "truthy braw" "hex24 (id_str braw)" "bid = id_str braw" "hex24 a" "hex24 b"
    "distinct (map page_id (pages s))"
    "\<forall>p\<in>set (pages s). bookId p = cast M bid \<longrightarrow> 0 \<le> pageNumber p"
    "unique_positions (cast M bid) (pages s)"
    "pa \<in> set (pages s)" "page_id pa = cast M a" "bookId pa = cast M bid"
    "pb \<in> set (pages s)" "page_id pb = cast M b" "bookId pb = cast M bid"
    "page_id pa \<noteq> page_id pb"
    "swap = [Entry \<lparr>pageId = JStr a, newPageNumber = pageNumber pb\<rparr>,
            Entry \<lparr>pageId = JStr b, newPageNumber = pageNumber pa\<rparr>]"
    by blast+
  show "status (fst (reorder M s braw (Array swap))) = 200"
    using a by (rule reorder_swap(1))
  show "pages (snd (reorder M s braw (Array swap))) =
        map (\<lambda>p. if p = pa then p\<lparr>pageNumber := pageNumber pb\<rparr>
                 else if p = pb then p\<lparr>pageNumber := pageNumber pa\<rparr> else p) (pages s)"
    using a by (rule reorder_swap(2))
qed

theorem phases_in_order_and_swap_succeeds_witness:
  "status (fst (reorder ex_M ex_store (JStr ex_book) (Array [ex_item ex_A 2, ex_item ex_B 1]))) = 200 \<and>
   pages (snd (reorder ex_M ex_store (JStr ex_book) (Array [ex_item ex_A 2, ex_item ex_B 1]))) =
     [ex_page ex_A 2, ex_page ex_B 1, ex_page ex_C 3] \<and>
   writes (snd (reorder ex_M ex_store (JStr ex_book) (Array [ex_item ex_A 2, ex_item ex_B 1]))) =
     [(ex_A, ex_book, - 1), (ex_B, ex_book, - 2), (ex_A, ex_book, 2), (ex_B, ex_book, 1)]"
proof -
  let ?swap = "[ex_item ex_A 2, ex_item ex_B 1]"
  let ?es = "[\<lparr>pageId = ex_A, newPageNumber = 2\<rparr>, \<lparr>pageId = ex_B, newPageNumber = 1 :: int\<rparr>]"
  let ?s' = "snd (reorder ex_M ex_store (JStr ex_book) (Array ?swap))"
  note t = phases_in_order_and_swap_succeeds[where M = ex_M and s = ex_store
      and braw = "JStr ex_book" and bid = ex_book and xs = ?swap and es = ?es
      and a = ex_A and b = ex_B and pa = "ex_page ex_A 1" and pb = "ex_page ex_B 2"
      and swap = ?swap]
  have h1: "truthy (JStr ex_book) \<and> hex24 (id_str (JStr ex_book)) \<and>
      ex_book = id_str (JStr ex_book) \<and> validPageOrders ?swap = Inr ?es"
    by code_simp
  have h2: "truthy (JStr ex_book) \<and> hex24 (id_str (JStr ex_book)) \<and>
    ex_book = id_str (JStr ex_book) \<and> hex24 ex_A \<and> hex24 ex_B \<and>
    distinct (map page_id (pages ex_store)) \<and>
    (\<forall>p\<in>set (pages ex_store). bookId p = cast ex_M ex_book \<longrightarrow> 0 \<le> pageNumber p) \<and>
    unique_positions (cast ex_M ex_book) (pages ex_store) \<and>
    ex_page ex_A 1 \<in> set (pages ex_store) \<and> page_id (ex_page ex_A 1) = cast ex_M ex_A \<and>
    bookId (ex_page ex_A 1) = cast ex_M ex_book \<and>
    ex_page ex_B 2 \<in> set (pages ex_store) \<and> page_id (ex_page ex_B 2) = cast ex_M ex_B \<and>
    bookId (ex_page ex_B 2) = cast ex_M ex_book \<and>
    page_id (ex_page ex_A 1) \<noteq> page_id (ex_page ex_B 2) \<and>
    ?swap = [Entry \<lparr>pageId = JStr ex_A, newPageNumber = pageNumber (ex_page ex_B 2)\<rparr>,
             Entry \<lparr>pageId = JStr ex_B, newPageNumber = pageNumber (ex_page ex_A 1)\<rparr>]"
    by code_simp
  note c = mp[OF conjunct2[OF t] h2]
  have ok: "status (fst (reorder ex_M ex_store (JStr ex_book) (Array ?swap))) = 200"
    using c by (rule conjunct1)
  have pg: "pages ?s' =
      map (\<lambda>p. if p = ex_page ex_A 1 then p\<lparr>pageNumber := pageNumber (ex_page ex_B 2)\<rparr>
               else if p = ex_page ex_B 2 then p\<lparr>pageNumber := pageNumber (ex_page ex_A 1)\<rparr> else p)
        (pages ex_store)"
    using c by (rule conjunct2)
  from mp[OF conjunct1[OF t] h1] obtain k1 k2 where
    w: "writes ?s' = writes ex_store @ take k1 (placeholder_writes ex_M ex_book 0 ?es) @
          take k2 (final_writes ex_M ex_book ?es)"
    and k: "status (fst (reorder ex_M ex_store (JStr ex_book) (Array ?swap))) = 200 \<longrightarrow>
          k1 = length ?es \<and> k2 = length ?es"
    by (elim exE conjE)
  have len: "length ?es = 2" by simp
  have ws: "writes ex_store @ take 2 (placeholder_writes ex_M ex_book 0 ?es) @
        take 2 (final_writes ex_M ex_book ?es) =
      [(ex_A, ex_book, - 1), (ex_B, ex_book, - 2), (ex_A, ex_book, 2), (ex_B, ex_book, 1)]"
    by code_simp
  note kk = mp[OF k ok, unfolded len]
  have k1: "k1 = 2" using kk by (rule conjunct1)
  have k2: "k2 = 2" using kk by (rule conjunct2)
  have w': "writes ?s' =
      [(ex_A, ex_book, - 1), (ex_B, ex_book, - 2), (ex_A, ex_book, 2), (ex_B, ex_book, 1)]"
    using w unfolding k1 k2 ws .
  have "map (\<lambda>p. if p = ex_page ex_A 1 then p\<lparr>pageNumber := pageNumber (ex_page ex_B 2)\<rparr>
               else if p = ex_page ex_B 2 then p\<lparr>pageNumber := pageNumber (ex_page ex_A 1)\<rparr> else p)
        (pages ex_store) = [ex_page ex_A 2, ex_page ex_B 1, ex_page ex_C 3]"
    by code_simp
  with pg have pg': "pages ?s' = [ex_page ex_A 2, ex_page ex_B 1, ex_page ex_C 3]"
    by (rule trans)
  from ok pg' w' show ?thesis by (intro conjI)
qed

end
